theory Spec2Isabelle
  imports
    Main
    "HOL-Library.AList"
    "HOL-Library.Char_ord"
    "HOL-Library.Code_Target_Numeral"
    "HOL-Library.List_Lexorder"
    "HOL-Library.Product_Lexorder"
begin

section \<open>Python values used by collect\_mc\_metrics.py\<close>

text \<open>
  Exceptions are values.  Only the exception classes that the script can meet are listed:
  \<open>KeyError\<close> (a missing dictionary key), \<open>ValueError\<close> (\<open>float\<close> of a text that is
  not a number), \<open>ZeroDivisionError\<close> (float division by zero), and \<open>OSError\<close> and
  \<open>EOFError\<close>, which the telnet connection raises.
\<close>

datatype py_error = KeyError | ValueError | ZeroDivisionError | OSError | EOFError

definition bind_r :: "py_error + 'a \<Rightarrow> ('a \<Rightarrow> py_error + 'b) \<Rightarrow> py_error + 'b" where
  "bind_r r f = (case r of Inl e \<Rightarrow> Inl e | Inr x \<Rightarrow> f x)"

subsection \<open>Dictionaries\<close>

text \<open>
  A Python \<open>dict\<close> keeps its keys in insertion order, and \<open>for key in stats\<close> walks them in
  that order, so a dictionary of strings is an association list.  Assigning to an existing key
  keeps its place, assigning to a new key appends it, \<open>del\<close> of a missing key raises.
\<close>

type_synonym dict = "(string \<times> string) list"

definition getitem :: "dict \<Rightarrow> string \<Rightarrow> py_error + string" where
  "getitem d k = (case map_of d k of None \<Rightarrow> Inl KeyError | Some v \<Rightarrow> Inr v)"

definition setitem :: "string \<Rightarrow> string \<Rightarrow> dict \<Rightarrow> dict" where
  "setitem k v d = AList.update k v d"

definition delitem :: "string \<Rightarrow> dict \<Rightarrow> py_error + dict" where
  "delitem k d = (case map_of d k of None \<Rightarrow> Inl KeyError | Some v \<Rightarrow> Inr (AList.delete k d))"

definition py_dict :: "(string \<times> string) list \<Rightarrow> dict" where
  \<comment> \<open>\<open>dict(pairs)\<close>: the pairs are inserted from left to right.\<close>
  "py_dict ps = fold (\<lambda>(k, v). setitem k v) ps []"

subsection \<open>Floats\<close>

text \<open>
  A Python \<open>float\<close> is an IEEE 754 binary64 number.  A finite one is kept as sign,
  significand and exponent, with value \<open>(-1)^s * m * 2^e\<close>, in the format's own normal form:
  \<open>m < 2^53\<close>, \<open>-1074 \<le> e \<le> 971\<close>, and \<open>2^52 \<le> m\<close> unless \<open>e = -1074\<close>.  Zero is
  \<open>m = 0\<close> at \<open>e = -1074\<close>.  Every operation computes the exact result and rounds it once, to
  nearest with ties to even, as the hardware does.
\<close>

datatype pyfloat = PyFin bool nat int | PyInf bool | PyNaN

fun bitlen :: "nat \<Rightarrow> nat" where
  "bitlen n = (if n = 0 then 0 else Suc (bitlen (n div 2)))"

declare bitlen.simps [simp del]

definition ge_pow2 :: "nat \<Rightarrow> nat \<Rightarrow> int \<Rightarrow> bool" where
  \<comment> \<open>\<open>den * 2^l \<le> num\<close> for an integer \<open>l\<close> of either sign\<close>
  "ge_pow2 num den l = (if 0 \<le> l then den * 2 ^ nat l \<le> num else den \<le> num * 2 ^ nat (- l))"

definition floor_log2 :: "nat \<Rightarrow> nat \<Rightarrow> int" where
  \<comment> \<open>the \<open>e\<close> with \<open>2^e \<le> num / den < 2^(e+1)\<close>, for positive \<open>num\<close> and \<open>den\<close>\<close>
  "floor_log2 num den =
     (let l = int (bitlen num) - int (bitlen den) in if ge_pow2 num den l then l else l - 1)"

definition round_half_even :: "nat \<Rightarrow> nat \<Rightarrow> nat \<Rightarrow> nat" where
  \<comment> \<open>the integer nearest to \<open>m0 + r / d\<close>, for \<open>r < d\<close>\<close>
  "round_half_even m0 r d = (if d < 2 * r \<or> (2 * r = d \<and> odd m0) then m0 + 1 else m0)"

definition pack :: "bool \<Rightarrow> nat \<Rightarrow> int \<Rightarrow> pyfloat" where
  \<comment> \<open>a rounded significand that reached \<open>2^53\<close> moves to the next exponent; an exponent
      beyond the format's largest is an infinity\<close>
  "pack s m q =
     (if m = 2 ^ 53 then (if 971 < q + 1 then PyInf s else PyFin s (2 ^ 52) (q + 1))
      else if 971 < q then PyInf s else PyFin s m q)"

definition round_at :: "bool \<Rightarrow> nat \<Rightarrow> nat \<Rightarrow> int \<Rightarrow> pyfloat" where
  \<comment> \<open>\<open>num / den\<close> rounded to a multiple of \<open>2^q\<close>\<close>
  "round_at s num den q =
     (let n' = (if q < 0 then num * 2 ^ nat (- q) else num);
          d' = (if q < 0 then den else den * 2 ^ nat q)
      in pack s (round_half_even (n' div d') (n' mod d') d') q)"

definition round_even :: "bool \<Rightarrow> nat \<Rightarrow> nat \<Rightarrow> pyfloat" where
  \<comment> \<open>the binary64 number nearest to \<open>(-1)^s * num / den\<close>, for \<open>0 < den\<close>: 53 significant
      bits, or fewer below the smallest normal number\<close>
  "round_even s num den =
     (if num = 0 then PyFin s 0 (- 1074)
      else round_at s num den (max (floor_log2 num den - 52) (- 1074)))"

definition round_scaled :: "bool \<Rightarrow> nat \<Rightarrow> nat \<Rightarrow> int \<Rightarrow> pyfloat" where
  \<comment> \<open>the binary64 number nearest to \<open>(-1)^s * (num / den) * 2^e\<close>\<close>
  "round_scaled s num den e =
     (if 0 \<le> e then round_even s (num * 2 ^ nat e) den else round_even s num (den * 2 ^ nat (- e)))"

definition round_dec :: "bool \<Rightarrow> nat \<Rightarrow> int \<Rightarrow> pyfloat" where
  \<comment> \<open>the binary64 number nearest to \<open>(-1)^s * d * 10^k\<close>\<close>
  "round_dec s d k =
     (if 0 \<le> k then round_even s (d * 10 ^ nat k) 1 else round_even s d (10 ^ nat (- k)))"

definition float_of_nat :: "nat \<Rightarrow> pyfloat" where
  \<comment> \<open>the conversion of the \<open>int\<close> operand in \<open>100 * x\<close>\<close>
  "float_of_nat n = round_even False n 1"

fun float_mul :: "pyfloat \<Rightarrow> pyfloat \<Rightarrow> pyfloat" where
  "float_mul (PyFin s1 m1 e1) (PyFin s2 m2 e2) = round_scaled (s1 \<noteq> s2) (m1 * m2) 1 (e1 + e2)"
| "float_mul (PyFin s1 m1 e1) (PyInf s2) = (if m1 = 0 then PyNaN else PyInf (s1 \<noteq> s2))"
| "float_mul (PyInf s1) (PyFin s2 m2 e2) = (if m2 = 0 then PyNaN else PyInf (s1 \<noteq> s2))"
| "float_mul (PyInf s1) (PyInf s2) = PyInf (s1 \<noteq> s2)"
| "float_mul PyNaN y = PyNaN"
| "float_mul x PyNaN = PyNaN"

definition signed :: "bool \<Rightarrow> nat \<Rightarrow> int" where
  "signed s m = (if s then - int m else int m)"

fun float_add :: "pyfloat \<Rightarrow> pyfloat \<Rightarrow> pyfloat" where
  "float_add (PyFin s1 m1 e1) (PyFin s2 m2 e2) =
     (let e = min e1 e2;
          v = signed s1 m1 * 2 ^ nat (e1 - e) + signed s2 m2 * 2 ^ nat (e2 - e)
      in if v = 0 then PyFin (s1 \<and> s2) 0 (- 1074) else round_scaled (v < 0) (nat \<bar>v\<bar>) 1 e)"
| "float_add (PyFin s1 m1 e1) (PyInf s2) = PyInf s2"
| "float_add (PyInf s1) (PyFin s2 m2 e2) = PyInf s1"
| "float_add (PyInf s1) (PyInf s2) = (if s1 = s2 then PyInf s1 else PyNaN)"
| "float_add PyNaN y = PyNaN"
| "float_add x PyNaN = PyNaN"

definition is_zero :: "pyfloat \<Rightarrow> bool" where
  "is_zero x = (case x of PyFin s m e \<Rightarrow> m = 0 | PyInf s \<Rightarrow> False | PyNaN \<Rightarrow> False)"

fun float_quot :: "pyfloat \<Rightarrow> pyfloat \<Rightarrow> pyfloat" where
  "float_quot (PyFin s1 m1 e1) (PyFin s2 m2 e2) = round_scaled (s1 \<noteq> s2) m1 m2 (e1 - e2)"
| "float_quot (PyFin s1 m1 e1) (PyInf s2) = PyFin (s1 \<noteq> s2) 0 (- 1074)"
| "float_quot (PyInf s1) (PyFin s2 m2 e2) = PyInf (s1 \<noteq> s2)"
| "float_quot (PyInf s1) (PyInf s2) = PyNaN"
| "float_quot PyNaN y = PyNaN"
| "float_quot x PyNaN = PyNaN"

definition float_div :: "pyfloat \<Rightarrow> pyfloat \<Rightarrow> py_error + pyfloat" where
  \<comment> \<open>\<open>x / y\<close>: Python tests the divisor first and raises on either zero\<close>
  "float_div x y = (if is_zero y then Inl ZeroDivisionError else Inr (float_quot x y))"

subsection \<open>\<open>float(text)\<close>\<close>

text \<open>
  \<open>float\<close> of a string strips ASCII whitespace, accepts single underscores between digits,
  an optional sign, and then either \<open>inf\<close>, \<open>infinity\<close> or \<open>nan\<close> in any letter case or
  a decimal number with an optional fraction and exponent; the whole text must be used up.
  Anything else raises \<open>ValueError\<close>.  A decimal number is rounded correctly; one too large
  becomes an infinity.  Characters are single bytes here: the Unicode digits and spaces that
  Python also accepts are outside the model.
\<close>

definition is_space :: "char \<Rightarrow> bool" where
  "is_space c = (c \<in> set [CHR 0x09, CHR 0x0A, CHR 0x0B, CHR 0x0C, CHR 0x0D, CHR '' ''])"

definition is_digit :: "char \<Rightarrow> bool" where
  "is_digit c = (c \<in> set ''0123456789'')"

definition digit_val :: "char \<Rightarrow> nat" where
  "digit_val c = of_char c - 48"

definition nat_of_digits :: "string \<Rightarrow> nat" where
  "nat_of_digits ds = foldl (\<lambda>n c. 10 * n + digit_val c) 0 ds"

definition to_lower :: "char \<Rightarrow> char" where
  "to_lower c = (let n = of_char c :: nat in if 65 \<le> n \<and> n \<le> 90 then char_of (n + 32) else c)"

definition strip_ws :: "string \<Rightarrow> string" where
  "strip_ws s = rev (dropWhile is_space (rev (dropWhile is_space s)))"

fun underscores_ok :: "char \<Rightarrow> string \<Rightarrow> bool" where
  "underscores_ok prev [] = (prev \<noteq> CHR ''_'')"
| "underscores_ok prev (c # cs) =
     ((if c = CHR ''_'' then is_digit prev else prev \<noteq> CHR ''_'' \<or> is_digit c)
      \<and> underscores_ok c cs)"

definition parse_exponent :: "string \<Rightarrow> int option" where
  "parse_exponent r =
     (case r of
        [] \<Rightarrow> Some 0
      | c # r' \<Rightarrow>
          if c = CHR ''e'' \<or> c = CHR ''E'' then
            (let neg = (case r' of [] \<Rightarrow> False | s # t \<Rightarrow> s = CHR ''-'');
                 ds = (case r' of [] \<Rightarrow> [] | s # t \<Rightarrow> if s = CHR ''-'' \<or> s = CHR ''+'' then t else r')
             in if ds \<noteq> [] \<and> list_all is_digit ds
                then Some (if neg then - int (nat_of_digits ds) else int (nat_of_digits ds))
                else None)
          else None)"

definition parse_number :: "string \<Rightarrow> (nat \<times> int) option" where
  \<comment> \<open>the digits as one integer \<open>d\<close> and the decimal exponent \<open>k\<close>: the number is \<open>d * 10^k\<close>\<close>
  "parse_number u =
     (let ip = takeWhile is_digit u;
          r1 = dropWhile is_digit u;
          fp = (case r1 of [] \<Rightarrow> [] | c # r \<Rightarrow> if c = CHR ''.'' then takeWhile is_digit r else []);
          r2 = (case r1 of [] \<Rightarrow> [] | c # r \<Rightarrow> if c = CHR ''.'' then dropWhile is_digit r else r1)
      in if ip = [] \<and> fp = [] then None
         else (case parse_exponent r2 of
                 None \<Rightarrow> None
               | Some x \<Rightarrow> Some (nat_of_digits (ip @ fp), x - int (length fp))))"

definition py_float :: "string \<Rightarrow> py_error + pyfloat" where
  "py_float s =
     (let t = strip_ws s in
      if \<not> underscores_ok (CHR 0x00) t then Inl ValueError
      else
        let u = filter (\<lambda>c. c \<noteq> CHR ''_'') t;
            neg = (case u of [] \<Rightarrow> False | c # r \<Rightarrow> c = CHR ''-'');
            body = (case u of [] \<Rightarrow> [] | c # r \<Rightarrow> if c = CHR ''-'' \<or> c = CHR ''+'' then r else u);
            lw = map to_lower body
        in if lw = ''inf'' \<or> lw = ''infinity'' then Inr (PyInf neg)
           else if lw = ''nan'' then Inr PyNaN
           else (case parse_number body of
                   None \<Rightarrow> Inl ValueError
                 | Some (d, k) \<Rightarrow> Inr (round_dec neg d k)))"

subsection \<open>\<open>str(x)\<close> of a float\<close>

text \<open>
  \<open>str\<close> of a float is its \<open>repr\<close>: the shortest decimal digit string that rounds back
  to the same float, the nearest to it among the shortest, written in positional notation
  when the decimal point falls after the first digit at positions \<open>-3 .. 16\<close> and with an
  exponent otherwise, and always with a fraction or an exponent.
\<close>

definition digit_char :: "nat \<Rightarrow> char" where
  "digit_char d = ''0123456789'' ! d"

fun digits_of :: "nat \<Rightarrow> string" where
  "digits_of n = (if n < 10 then [digit_char n] else digits_of (n div 10) @ [digit_char (n mod 10)])"

declare digits_of.simps [simp del]

function exp10_below :: "nat \<Rightarrow> nat \<Rightarrow> nat" where
  "exp10_below num den = (if num = 0 \<or> den \<le> num then 0 else Suc (exp10_below (num * 10) den))"
  by pat_completeness auto
termination
  by (relation "measure (\<lambda>(num, den). den - num)") auto

declare exp10_below.simps [simp del]

definition floor_log10 :: "nat \<Rightarrow> nat \<Rightarrow> int" where
  \<comment> \<open>the \<open>k\<close> with \<open>10^k \<le> num / den < 10^(k+1)\<close>, for positive \<open>num\<close> and \<open>den\<close>\<close>
  "floor_log10 num den =
     (if den \<le> num then int (length (digits_of (num div den))) - 1
      else - int (exp10_below num den))"

definition choose_digits :: "nat \<Rightarrow> int \<Rightarrow> nat \<Rightarrow> int \<Rightarrow> nat \<Rightarrow> nat \<Rightarrow> nat \<Rightarrow> (nat \<times> int) option" where
  \<comment> \<open>of the two \<open>p\<close>-digit decimals \<open>lo * 10^k\<close> and \<open>(lo + 1) * 10^k\<close> around
      \<open>m * 2^e = (lo + r / sd) * 10^k\<close>, the one that rounds back to \<open>m * 2^e\<close>, the nearer
      one if both do\<close>
  "choose_digits m e p k lo r sd =
     (let ok_lo = (round_dec False lo k = PyFin False m e);
          ok_hi = (round_dec False (lo + 1) k = PyFin False m e);
          d = (if ok_lo \<and> ok_hi
               then (if 2 * r < sd \<or> (2 * r = sd \<and> even lo) then lo else lo + 1)
               else if ok_lo then lo else lo + 1)
      in if ok_lo \<or> ok_hi then Some (if d = 10 ^ p then (1, k + int p) else (d, k)) else None)"

definition scaled_digits :: "nat \<Rightarrow> int \<Rightarrow> nat \<Rightarrow> int \<Rightarrow> nat \<Rightarrow> nat \<Rightarrow> (nat \<times> int) option" where
  "scaled_digits m e p k num den =
     (let sn = (if 0 \<le> k then num else num * 10 ^ nat (- k));
          sd = (if 0 \<le> k then den * 10 ^ nat k else den)
      in choose_digits m e p k (sn div sd) (sn mod sd) sd)"

definition repr_candidate :: "nat \<Rightarrow> int \<Rightarrow> nat \<Rightarrow> (nat \<times> int) option" where
  \<comment> \<open>the decimal \<open>d * 10^k\<close> of \<open>p\<close> digits nearest to \<open>m * 2^e\<close>, if one rounds back to it\<close>
  "repr_candidate m e p =
     (let num = (if 0 \<le> e then m * 2 ^ nat e else m);
          den = (if 0 \<le> e then 1 else 2 ^ nat (- e))
      in scaled_digits m e p (floor_log10 num den - int p + 1) num den)"

function repr_digits_from :: "nat \<Rightarrow> int \<Rightarrow> nat \<Rightarrow> nat \<times> int" where
  \<comment> \<open>the first precision from \<open>p\<close> on that has a candidate; seventeen digits always
      round back, so the search never runs past them\<close>
  "repr_digits_from m e p =
     (case repr_candidate m e p of
        Some r \<Rightarrow> r
      | None \<Rightarrow> if p < 17 then repr_digits_from m e (Suc p) else (0, 0))"
  by pat_completeness auto
termination
  by (relation "measure (\<lambda>(m, e, p). 17 - p)") auto

declare repr_digits_from.simps [simp del]

definition repr_digits :: "nat \<Rightarrow> int \<Rightarrow> nat \<times> int" where
  "repr_digits m e = repr_digits_from m e 1"

definition exponent_text :: "int \<Rightarrow> string" where
  "exponent_text x =
     (if x < 0 then ''-'' else ''+'') @
     (if nat \<bar>x\<bar> < 10 then CHR ''0'' # digits_of (nat \<bar>x\<bar>) else digits_of (nat \<bar>x\<bar>))"

definition format_repr :: "nat \<Rightarrow> int \<Rightarrow> string" where
  "format_repr d k =
     (let ds = digits_of d; n = int (length ds); decpt = n + k in
      if decpt \<le> - 4 \<or> 16 < decpt then
        take 1 ds @ (if drop 1 ds = [] then [] else CHR ''.'' # drop 1 ds) @ ''e'' @ exponent_text (decpt - 1)
      else if decpt \<le> 0 then ''0.'' @ replicate (nat (- decpt)) (CHR ''0'') @ ds
      else if n \<le> decpt then ds @ replicate (nat (decpt - n)) (CHR ''0'') @ ''.0''
      else take (nat decpt) ds @ ''.'' @ drop (nat decpt) ds)"

definition py_str :: "pyfloat \<Rightarrow> string" where
  "py_str x =
     (case x of
        PyNaN \<Rightarrow> ''nan''
      | PyInf s \<Rightarrow> (if s then ''-inf'' else ''inf'')
      | PyFin s m e \<Rightarrow>
          (if s then ''-'' else '''') @
          (if m = 0 then ''0.0'' else (case repr_digits m e of (d, k) \<Rightarrow> format_repr d k)))"

subsection \<open>The decimal texts that \<open>str\<close> writes\<close>

text \<open>
  The texts of finite floats follow one grammar: digits, then possibly a point and more
  digits, then possibly an exponent \<open>e\<close> with an optional sign and digits.  The two
  predicates describe it; they are used to show that \<open>float\<close> accepts such texts.
\<close>

definition exponent_part :: "string \<Rightarrow> bool" where
  "exponent_part ex \<longleftrightarrow>
     ex = [] \<or> (\<exists>sg ds. ex = CHR ''e'' # sg @ ds \<and> (sg = [] \<or> sg = ''-'' \<or> sg = ''+'') \<and>
                  ds \<noteq> [] \<and> list_all is_digit ds)"

definition number_shape :: "string \<Rightarrow> bool" where
  "number_shape s \<longleftrightarrow>
     (\<exists>ip frac ex. s = ip @ frac @ ex \<and> list_all is_digit ip \<and> ip \<noteq> [] \<and>
        (frac = [] \<or> (\<exists>fp. frac = CHR ''.'' # fp \<and> list_all is_digit fp)) \<and> exponent_part ex)"

section \<open>The stats normalizer: \<open>wrap_stats\<close>\<close>

text \<open>
  \<open>wrap_stats\<close> changes the dictionary in place inside one \<open>try\<close> block, and its
  \<open>finally: return stats\<close> returns the dictionary as it is when the block ends, normally or
  by any exception.  The block is a sequence of steps; each step either raises, leaving the
  dictionary as it found it (every assignment evaluates its right-hand side first), or
  returns the updated dictionary.
\<close>

definition float_item :: "dict \<Rightarrow> string \<Rightarrow> py_error + pyfloat" where
  \<comment> \<open>\<open>float(stats[key])\<close>\<close>
  "float_item stats key = bind_r (getitem stats key) py_float"

definition usage_step :: "dict \<Rightarrow> py_error + dict" where
  \<comment> \<open>\<open>stats['usage'] = str(100 * float(stats['bytes']) / float(stats['limit_maxbytes']))\<close>\<close>
  "usage_step stats =
     bind_r (float_item stats ''bytes'') (\<lambda>fb.
     bind_r (float_item stats ''limit_maxbytes'') (\<lambda>fl.
     bind_r (float_div (float_mul (float_of_nat 100) fb) fl) (\<lambda>u.
     Inr (setitem ''usage'' (py_str u) stats))))"

definition hit_ratio_step :: "string \<Rightarrow> string \<Rightarrow> string \<Rightarrow> dict \<Rightarrow> py_error + dict" where
  \<comment> \<open>\<open>try: stats[ratio] = str(100 * float(stats[hits]) / (float(stats[hits]) + float(stats[misses])))\<close>
      \<open>except ZeroDivisionError: stats[ratio] = '0.0'\<close>\<close>
  "hit_ratio_step ratio hits misses stats =
     bind_r (float_item stats hits) (\<lambda>fh.
     bind_r (float_item stats hits) (\<lambda>fh'.
     bind_r (float_item stats misses) (\<lambda>fm.
       (case float_div (float_mul (float_of_nat 100) fh) (float_add fh' fm) of
          Inl e \<Rightarrow> (if e = ZeroDivisionError then Inr (setitem ratio ''0.0'' stats) else Inl e)
        | Inr x \<Rightarrow> Inr (setitem ratio (py_str x) stats)))))"

fun run_steps :: "(dict \<Rightarrow> py_error + dict) list \<Rightarrow> dict \<Rightarrow> py_error option \<times> dict" where
  "run_steps [] stats = (None, stats)"
| "run_steps (f # fs) stats =
     (case f stats of Inl e \<Rightarrow> (Some e, stats) | Inr stats' \<Rightarrow> run_steps fs stats')"

definition wrap_stats_steps :: "(dict \<Rightarrow> py_error + dict) list" where
  "wrap_stats_steps =
     [delitem ''pid'',
      delitem ''time'',
      usage_step,
      hit_ratio_step ''get_hit_ratio'' ''get_hits'' ''get_misses'',
      hit_ratio_step ''incr_hit_ratio'' ''incr_hits'' ''incr_misses'',
      hit_ratio_step ''decr_hit_ratio'' ''decr_hits'' ''decr_misses'',
      hit_ratio_step ''delete_hit_ratio'' ''delete_hits'' ''delete_misses'']"

definition wrap_stats_try :: "dict \<Rightarrow> py_error option \<times> dict" where
  \<comment> \<open>the exception that ended the \<open>try\<close> block, if any, and the dictionary at that moment\<close>
  "wrap_stats_try stats = run_steps wrap_stats_steps stats"

definition wrap_stats_logged :: "dict \<Rightarrow> bool" where
  \<comment> \<open>\<open>except KeyError: logging.exception(msg)\<close>; any other exception is dropped by the
      \<open>return\<close> in \<open>finally\<close>\<close>
  "wrap_stats_logged stats = (fst (wrap_stats_try stats) = Some KeyError)"

definition wrap_stats :: "dict \<Rightarrow> dict" where
  "wrap_stats stats = snd (wrap_stats_try stats)"

definition required_keys :: "string list" where
  "required_keys =
     [''bytes'', ''limit_maxbytes'', ''get_hits'', ''get_misses'', ''incr_hits'', ''incr_misses'',
      ''decr_hits'', ''decr_misses'', ''delete_hits'', ''delete_misses'']"

definition hit_pairs :: "(string \<times> string \<times> string) list" where
  \<comment> \<open>the ratio key with its hits key and its misses key, block by block\<close>
  "hit_pairs =
     [(''get_hit_ratio'', ''get_hits'', ''get_misses''),
      (''incr_hit_ratio'', ''incr_hits'', ''incr_misses''),
      (''decr_hit_ratio'', ''decr_hits'', ''decr_misses''),
      (''delete_hit_ratio'', ''delete_hits'', ''delete_misses'')]"

definition derived_keys :: "string list" where
  "derived_keys =
     [''usage'', ''get_hit_ratio'', ''incr_hit_ratio'', ''decr_hit_ratio'', ''delete_hit_ratio'']"

definition hit_ratio :: "pyfloat \<Rightarrow> pyfloat \<Rightarrow> string" where
  \<comment> \<open>the text one ratio block stores, from the converted hits and misses\<close>
  "hit_ratio fh fm =
     (if is_zero (float_add fh fm) then ''0.0''
      else py_str (float_quot (float_mul (float_of_nat 100) fh) (float_add fh fm)))"

definition example_stats :: dict where
  "example_stats =
     [(''pid'', ''4242''), (''uptime'', ''10''), (''time'', ''1700000000''),
      (''bytes'', ''50''), (''limit_maxbytes'', ''100''),
      (''get_hits'', ''3''), (''get_misses'', ''1''),
      (''incr_hits'', ''0''), (''incr_misses'', ''0''),
      (''decr_hits'', ''3''), (''decr_misses'', ''1''),
      (''delete_hits'', ''0''), (''delete_misses'', ''0'')]"

definition partial_stats :: dict where
  \<comment> \<open>a reply that lacks every hits and misses counter\<close>
  "partial_stats =
     [(''pid'', ''4242''), (''time'', ''1700000000''), (''bytes'', ''50''), (''limit_maxbytes'', ''100'')]"

definition unidentified_stats :: dict where
  \<comment> \<open>a reply that lacks \<open>pid\<close>\<close>
  "unidentified_stats =
     [(''time'', ''1700000000''), (''bytes'', ''50''), (''limit_maxbytes'', ''100''),
      (''get_hits'', ''3''), (''get_misses'', ''1'')]"

section \<open>The regular expressions of the protocol client\<close>

text \<open>
  The three patterns of \<open>MemcachedStats\<close> use literal characters, the classes \<open>.\<close> (any
  character but a newline) and \<open>[0-9]\<close>, the greedy quantifiers \<open>*\<close>, \<open>+\<close> and \<open>?\<close> on a
  single character class, and capturing groups without nesting.  The matcher below is the
  backtracking one of Python's \<open>re\<close> on that fragment: every function lists the possible
  matches in the order in which backtracking tries them, longest repetition first, and the
  first of the list is the match.
\<close>

datatype cls = AnyChar | Digit | Lit char

fun in_cls :: "cls \<Rightarrow> char \<Rightarrow> bool" where
  "in_cls AnyChar c = (c \<noteq> CHR 0x0A)"
| "in_cls Digit c = is_digit c"
| "in_cls (Lit x) c = (c = x)"

datatype atom = One cls | Star cls | Plus cls | Opt cls

datatype piece = Atom atom | Group "atom list"

type_synonym regex = "piece list"

fun m_atom :: "atom \<Rightarrow> string \<Rightarrow> nat list" where
  \<comment> \<open>how many characters the atom may take from the front of the text\<close>
  "m_atom (One c) s = (case s of [] \<Rightarrow> [] | x # xs \<Rightarrow> if in_cls c x then [1] else [])"
| "m_atom (Star c) s = rev [0 ..< Suc (length (takeWhile (in_cls c) s))]"
| "m_atom (Plus c) s = rev [1 ..< Suc (length (takeWhile (in_cls c) s))]"
| "m_atom (Opt c) s = (case s of [] \<Rightarrow> [0] | x # xs \<Rightarrow> if in_cls c x then [1, 0] else [0])"

fun m_atoms :: "atom list \<Rightarrow> string \<Rightarrow> nat list" where
  "m_atoms [] s = [0]"
| "m_atoms (a # as) s =
     concat (map (\<lambda>n. map (\<lambda>k. n + k) (m_atoms as (drop n s))) (m_atom a s))"

fun m_pieces :: "piece list \<Rightarrow> string \<Rightarrow> (string list \<times> nat) list" where
  \<comment> \<open>the texts of the groups and the number of characters matched\<close>
  "m_pieces [] s = [([], 0)]"
| "m_pieces (Atom a # ps) s =
     concat (map (\<lambda>n. map (\<lambda>(gs, k). (gs, n + k)) (m_pieces ps (drop n s))) (m_atom a s))"
| "m_pieces (Group as # ps) s =
     concat (map (\<lambda>n. map (\<lambda>(gs, k). (take n s # gs, n + k)) (m_pieces ps (drop n s)))
       (m_atoms as s))"

definition match_at :: "regex \<Rightarrow> string \<Rightarrow> (string list \<times> nat) option" where
  "match_at re s = (case m_pieces re s of [] \<Rightarrow> None | r # rs \<Rightarrow> Some r)"

function findall :: "regex \<Rightarrow> string \<Rightarrow> string list list" where
  \<comment> \<open>\<open>pattern.findall(text)\<close>: the groups of the leftmost match, then of the leftmost match
      after it, and so on; the search moves on by one character where nothing matches (and
      past an empty match)\<close>
  "findall re [] = (case match_at re [] of None \<Rightarrow> [] | Some (gs, n) \<Rightarrow> [gs])"
| "findall re (x # xs) =
     (case match_at re (x # xs) of
        None \<Rightarrow> findall re xs
      | Some (gs, n) \<Rightarrow> gs # findall re (drop (n - 1) xs))"
  by pat_completeness auto
termination
  by (relation "measure (\<lambda>(re, s). length s)") auto

definition lits :: "string \<Rightarrow> piece list" where
  "lits s = map (\<lambda>c. Atom (One (Lit c))) s"

definition key_regex :: regex where
  \<comment> \<open>\<open>'ITEM (.*) \[(.*); (.*)\]'\<close>\<close>
  "key_regex =
     lits ''ITEM '' @ [Group [Star AnyChar]] @ lits '' ['' @ [Group [Star AnyChar]] @
     lits ''; '' @ [Group [Star AnyChar]] @ lits '']''"

definition slab_regex :: regex where
  \<comment> \<open>\<open>'STAT items:(.*):number'\<close>\<close>
  "slab_regex = lits ''STAT items:'' @ [Group [Star AnyChar]] @ lits '':number''"

definition stat_regex :: regex where
  \<comment> \<open>\<open>"STAT (.*) ([0-9]+\.?[0-9]*)\r"\<close>\<close>
  "stat_regex =
     lits ''STAT '' @ [Group [Star AnyChar]] @ lits '' '' @
     [Group [Plus Digit, Opt (Lit (CHR ''.'')), Star Digit]] @ [Atom (One (Lit (CHR 0x0D)))]"

definition as_pair :: "string list \<Rightarrow> string \<times> string" where
  \<comment> \<open>\<open>findall\<close> gives a tuple per match when the pattern has several groups\<close>
  "as_pair gs = (case gs of [a, b] \<Rightarrow> (a, b) | _ \<Rightarrow> ([], []))"

definition as_triple :: "string list \<Rightarrow> string \<times> string \<times> string" where
  "as_triple gs = (case gs of [a, b, c] \<Rightarrow> (a, b, c) | _ \<Rightarrow> ([], [], []))"

definition as_single :: "string list \<Rightarrow> string" where
  \<comment> \<open>and the group itself when it has one\<close>
  "as_single gs = (case gs of [a] \<Rightarrow> a | _ \<Rightarrow> [])"

fun split_lines :: "string \<Rightarrow> string list" where
  \<comment> \<open>the lines of a text, without their newline characters: \<open>text.split('\n')\<close>\<close>
  "split_lines [] = [[]]"
| "split_lines (c # cs) =
     (if c = CHR 0x0A then [] # split_lines cs
      else (case split_lines cs of [] \<Rightarrow> [[c]] | l # ls \<Rightarrow> (c # l) # ls))"

subsection \<open>Patterns that stay within a line\<close>

fun atom_cls :: "atom \<Rightarrow> cls" where
  "atom_cls (One c) = c"
| "atom_cls (Star c) = c"
| "atom_cls (Plus c) = c"
| "atom_cls (Opt c) = c"

definition nl_free_atom :: "atom \<Rightarrow> bool" where
  "nl_free_atom a = (\<not> in_cls (atom_cls a) (CHR 0x0A))"

fun nl_free_piece :: "piece \<Rightarrow> bool" where
  "nl_free_piece (Atom a) = nl_free_atom a"
| "nl_free_piece (Group as) = list_all nl_free_atom as"

definition nl_free :: "regex \<Rightarrow> bool" where
  \<comment> \<open>no part of the pattern can match a newline character\<close>
  "nl_free re = list_all nl_free_piece re"

definition stat_lines :: "string \<Rightarrow> (string \<times> string) list" where
  \<comment> \<open>the reading of \<open>stats()\<close> line by line: every line is searched for
      \<open>STAT <name> <number>\<close> followed by a carriage return, a line without one gives
      nothing\<close>
  "stat_lines text = concat (map (\<lambda>line. map as_pair (findall stat_regex line)) (split_lines text))"

definition is_number_text :: "string \<Rightarrow> bool" where
  \<comment> \<open>digits, then possibly a point, then possibly more digits: \<open>[0-9]+\.?[0-9]*\<close>\<close>
  "is_number_text v =
     (takeWhile is_digit v \<noteq> [] \<and>
      (case dropWhile is_digit v of
         [] \<Rightarrow> True
       | c # r \<Rightarrow> c = CHR ''.'' \<and> list_all is_digit r))"

section \<open>The protocol client: \<open>MemcachedStats\<close>\<close>

text \<open>
  The client talks through \<open>telnetlib.Telnet\<close>, which is not part of the script.  What the
  script can observe of one server is taken as given: whether opening the connection raises,
  whether a write raises, and what \<open>read_until\<close> (followed by \<open>decode\<close>) returns or
  raises; the last two may depend on the commands written so far.  A server that never
  answers and never closes makes \<open>read_until\<close> wait forever; such a server is outside
  the model.
\<close>

record peer =
  connect_error :: "py_error option"
  write_error :: "string list \<Rightarrow> py_error option"
  read_until :: "string list \<Rightarrow> string \<Rightarrow> py_error + string"

text \<open>
  The methods of the class carry the prefix \<open>mc_\<close>, since names such as \<open>stats\<close> also
  name variables of the script.  The object keeps its port and its connection; \<open>_client\<close> is \<open>None\<close> until the first use.
  An open connection is represented by the list of the commands written on it.
\<close>

record memcached_stats =
  mc_port :: nat
  mc_conn :: "string list option"

definition MemcachedStats :: "nat \<Rightarrow> memcached_stats" where
  "MemcachedStats p = \<lparr>mc_port = p, mc_conn = None\<rparr>"

definition mc_client :: "peer \<Rightarrow> memcached_stats \<Rightarrow> (py_error + string list) \<times> memcached_stats" where
  \<comment> \<open>the property \<open>client\<close>: connects on first use\<close>
  "mc_client pr mc =
     (case mc_conn mc of
        Some sent \<Rightarrow> (Inr sent, mc)
      | None \<Rightarrow>
          (case connect_error pr of
             Some e \<Rightarrow> (Inl e, mc)
           | None \<Rightarrow> (Inr [], mc\<lparr>mc_conn := Some []\<rparr>)))"

definition ends_with_newline :: "string \<Rightarrow> bool" where
  "ends_with_newline cmd = (cmd \<noteq> [] \<and> last cmd = CHR 0x0A)"

definition mc_write :: "peer \<Rightarrow> string \<Rightarrow> memcached_stats \<Rightarrow> (py_error + unit) \<times> memcached_stats" where
  \<comment> \<open>\<open>_write\<close>: \<open>Telnet.write\<close> returns nothing, so neither does \<open>_write\<close>\<close>
  "mc_write pr cmd mc =
     (let line = (if ends_with_newline cmd then cmd else cmd @ [CHR 0x0A]) in
      case mc_client pr mc of
        (Inl e, mc') \<Rightarrow> (Inl e, mc')
      | (Inr sent, mc') \<Rightarrow>
          (case write_error pr (sent @ [line]) of
             Some e \<Rightarrow> (Inl e, mc')
           | None \<Rightarrow> (Inr (), mc'\<lparr>mc_conn := Some (sent @ [line])\<rparr>)))"

definition mc_read_until :: "peer \<Rightarrow> string \<Rightarrow> memcached_stats \<Rightarrow> (py_error + string) \<times> memcached_stats" where
  \<comment> \<open>\<open>_read_until\<close>\<close>
  "mc_read_until pr token mc =
     (case mc_client pr mc of
        (Inl e, mc') \<Rightarrow> (Inl e, mc')
      | (Inr sent, mc') \<Rightarrow> (read_until pr sent token, mc'))"

definition mc_command :: "peer \<Rightarrow> string \<Rightarrow> memcached_stats \<Rightarrow> (py_error + string) \<times> memcached_stats" where
  "mc_command pr cmd mc =
     (case mc_write pr cmd mc of
        (Inl e, mc') \<Rightarrow> (Inl e, mc')
      | (Inr u, mc') \<Rightarrow> mc_read_until pr ''END'' mc')"

definition mc_close :: "peer \<Rightarrow> memcached_stats \<Rightarrow> (py_error + unit) \<times> memcached_stats" where
  "mc_close pr mc = mc_write pr ''quit'' mc"

definition mc_stats :: "peer \<Rightarrow> memcached_stats \<Rightarrow> (py_error + dict) \<times> memcached_stats" where
  \<comment> \<open>\<open>dict(self._stat_regex.findall(self.command('stats')))\<close>\<close>
  "mc_stats pr mc =
     (case mc_command pr ''stats'' mc of
        (Inl e, mc') \<Rightarrow> (Inl e, mc')
      | (Inr text, mc') \<Rightarrow> (Inr (py_dict (map as_pair (findall stat_regex text))), mc'))"

definition mc_slab_ids :: "peer \<Rightarrow> memcached_stats \<Rightarrow> (py_error + string list) \<times> memcached_stats" where
  "mc_slab_ids pr mc =
     (case mc_command pr ''stats items'' mc of
        (Inl e, mc') \<Rightarrow> (Inl e, mc')
      | (Inr text, mc') \<Rightarrow> (Inr (map as_single (findall slab_regex text)), mc'))"

definition str_int :: "int \<Rightarrow> string" where
  \<comment> \<open>\<open>'%s' % n\<close> for an \<open>int\<close>\<close>
  "str_int n = (if n < 0 then CHR ''-'' # digits_of (nat (- n)) else digits_of (nat n))"

fun cachedump_keys ::
  "peer \<Rightarrow> int \<Rightarrow> string list \<Rightarrow> memcached_stats \<Rightarrow>
     (py_error + (string \<times> string \<times> string) list) \<times> memcached_stats" where
  \<comment> \<open>the comprehension of \<open>key_details\<close>: one \<open>stats cachedump\<close> per slab id, in order\<close>
  "cachedump_keys pr limit [] mc = (Inr [], mc)"
| "cachedump_keys pr limit (sid # sids) mc =
     (case mc_command pr (''stats cachedump '' @ sid @ '' '' @ str_int limit) mc of
        (Inl e, mc') \<Rightarrow> (Inl e, mc')
      | (Inr text, mc') \<Rightarrow>
          (case cachedump_keys pr limit sids mc' of
             (Inl e, mc'') \<Rightarrow> (Inl e, mc'')
           | (Inr keys, mc'') \<Rightarrow> (Inr (map as_triple (findall key_regex text) @ keys), mc'')))"

definition mc_key_details ::
  "peer \<Rightarrow> bool \<Rightarrow> int \<Rightarrow> memcached_stats \<Rightarrow>
     (py_error + (string \<times> string \<times> string) list) \<times> memcached_stats" where
  \<comment> \<open>\<open>sorted\<close> compares the tuples lexicographically, and strings character by character\<close>
  "mc_key_details pr sort_keys limit mc =
     (case mc_slab_ids pr mc of
        (Inl e, mc') \<Rightarrow> (Inl e, mc')
      | (Inr sids, mc') \<Rightarrow>
          (case cachedump_keys pr limit sids mc' of
             (Inl e, mc'') \<Rightarrow> (Inl e, mc'')
           | (Inr keys, mc'') \<Rightarrow> (Inr (if sort_keys then sort keys else keys), mc'')))"

definition mc_keys ::
  "peer \<Rightarrow> bool \<Rightarrow> int \<Rightarrow> memcached_stats \<Rightarrow> (py_error + string list) \<times> memcached_stats" where
  \<comment> \<open>the method \<open>keys\<close>\<close>
  "mc_keys pr sort_keys limit mc =
     (case mc_key_details pr sort_keys limit mc of
        (Inl e, mc') \<Rightarrow> (Inl e, mc')
      | (Inr ds, mc') \<Rightarrow> (Inr (map fst ds), mc'))"

section \<open>The instance collector\<close>

record metric_point =
  metric :: string
  endpoint :: string
  timestamp :: int
  step :: int
  metric_value :: pyfloat
  counterType :: string
  tags :: string

record environment =
  env_hostname :: string  \<comment> \<open>\<open>socket.gethostname()\<close>\<close>
  env_now :: int  \<comment> \<open>\<open>int(time.time())\<close>\<close>
  env_ports :: "nat list"  \<comment> \<open>the set \<open>MemcachedStats.get_instances()\<close>, in the order the loop visits it\<close>
  env_peers :: "nat \<Rightarrow> peer"  \<comment> \<open>the server behind each port\<close>

definition gauges :: "string list" where
  "gauges =
     [''get_hit_ratio'', ''incr_hit_ratio'', ''decr_hit_ratio'', ''delete_hit_ratio'', ''usage'',
      ''curr_connections'', ''total_connections'', ''bytes'', ''pointer_size'', ''uptime'',
      ''limit_maxbytes'', ''threads'', ''curr_items'', ''total_items'', ''connection_structures'']"

definition poll :: "peer \<Rightarrow> nat \<Rightarrow> py_error + dict" where
  \<comment> \<open>the body of the \<open>try\<close> in the loop: connect, fetch, normalize, close\<close>
  "poll pr p =
     (case mc_stats pr (MemcachedStats p) of
        (Inl e, conn) \<Rightarrow> Inl e
      | (Inr raw, conn) \<Rightarrow>
          (let st = wrap_stats raw in
           case mc_close pr conn of
             (Inl e, conn') \<Rightarrow> Inl e
           | (Inr u, conn') \<Rightarrow> Inr st))"

definition make_point :: "environment \<Rightarrow> nat \<Rightarrow> string \<Rightarrow> pyfloat \<Rightarrow> metric_point" where
  "make_point env p key v =
     \<lparr>metric = ''mc.'' @ key @ (if key \<in> set gauges then [] else ''_cps''),
      endpoint = env_hostname env,
      timestamp = env_now env,
      step = 60,
      metric_value = v,
      counterType = (if key \<in> set gauges then ''GAUGE'' else ''COUNTER''),
      tags = ''port='' @ str_int (int p)\<rparr>"

fun points_of :: "environment \<Rightarrow> nat \<Rightarrow> dict \<Rightarrow> dict \<Rightarrow> py_error + metric_point list" where
  \<comment> \<open>\<open>for key in stats\<close>: \<open>float(stats[key])\<close> is outside the \<open>try\<close>, so its error leaves
      the function\<close>
  "points_of env p st [] = Inr []"
| "points_of env p st ((key, v) # rest) =
     bind_r (float_item st key) (\<lambda>x.
     bind_r (points_of env p st rest) (\<lambda>pts. Inr (make_point env p key x # pts)))"

record collected =
  failed :: "nat list"  \<comment> \<open>the ports whose failure was logged\<close>
  data :: "metric_point list"

fun collect_ports :: "environment \<Rightarrow> nat list \<Rightarrow> collected \<Rightarrow> py_error + collected" where
  "collect_ports env [] acc = Inr acc"
| "collect_ports env (p # ps) acc =
     (case poll (env_peers env p) p of
        Inl e \<Rightarrow> collect_ports env ps (acc\<lparr>failed := failed acc @ [p]\<rparr>)
      | Inr st \<Rightarrow>
          bind_r (points_of env p st st) (\<lambda>pts.
          collect_ports env ps (acc\<lparr>data := data acc @ pts\<rparr>)))"

definition collect_instances :: "environment \<Rightarrow> py_error + collected option" where
  \<comment> \<open>\<open>None\<close> is the bare \<open>return\<close> taken when no port was found\<close>
  "collect_instances env =
     (if env_ports env = [] then Inr None
      else bind_r (collect_ports env (env_ports env) \<lparr>failed = [], data = []\<rparr>) (\<lambda>c. Inr (Some c)))"

definition main :: "environment \<Rightarrow> py_error + metric_point list option" where
  \<comment> \<open>the list handed to \<open>json.dumps\<close> and posted, or \<open>None\<close> when nothing is posted;
      a failure of the post itself is caught and logged\<close>
  "main env =
     bind_r (collect_instances env) (\<lambda>result.
       case result of
         None \<Rightarrow> Inr None
       | Some c \<Rightarrow> if data c = [] then Inr None else Inr (Some (data c)))"

definition float_dict :: "dict \<Rightarrow> bool" where
  \<comment> \<open>the keys are distinct, as in any \<open>dict\<close>, and \<open>float\<close> accepts every value\<close>
  "float_dict d = (distinct (map fst d) \<and> (\<forall>(k, v) \<in> set d. \<not> isl (py_float v)))"


subsection \<open>Example servers\<close>

definition quit_line :: string where
  "quit_line = ''quit'' @ [CHR 0x0A]"

definition broken_pipe_peer :: peer where
  \<comment> \<open>accepts the connection, then every write fails\<close>
  "broken_pipe_peer =
     \<lparr>connect_error = None, write_error = (\<lambda>sent. Some OSError),
      read_until = (\<lambda>sent token. Inr [])\<rparr>"

definition refusing_peer :: peer where
  "refusing_peer =
     \<lparr>connect_error = Some OSError, write_error = (\<lambda>sent. None),
      read_until = (\<lambda>sent token. Inr [])\<rparr>"

definition items_text :: string where
  "items_text =
     ''STAT items:1:number 2'' @ [CHR 0x0D, CHR 0x0A] @
     ''STAT items:1:age 7'' @ [CHR 0x0D, CHR 0x0A] @ ''END''"

definition dump_text :: string where
  \<comment> \<open>\<open>"ITEM foo [10; 123]\r\nITEM bar [5; 456]\r\nEND\r\n"\<close>\<close>
  "dump_text =
     ''ITEM foo [10; 123]'' @ [CHR 0x0D, CHR 0x0A] @
     ''ITEM bar [5; 456]'' @ [CHR 0x0D, CHR 0x0A] @ ''END'' @ [CHR 0x0D, CHR 0x0A]"

definition dump_peer :: peer where
  \<comment> \<open>one slab; answers the cache dump of that slab with \<open>dump_text\<close>\<close>
  "dump_peer =
     \<lparr>connect_error = None, write_error = (\<lambda>sent. None),
      read_until = (\<lambda>sent token. if length sent = 1 then Inr items_text else Inr dump_text)\<rparr>"

definition idle_host :: environment where
  \<comment> \<open>no cache server runs\<close>
  "idle_host =
     \<lparr>env_hostname = ''cache01'', env_now = 1700000000, env_ports = [],
      env_peers = (\<lambda>p. refusing_peer)\<rparr>"

definition dead_host :: environment where
  \<comment> \<open>two servers are listed, neither accepts a connection\<close>
  "dead_host =
     \<lparr>env_hostname = ''cache01'', env_now = 1700000000, env_ports = [11211, 11212],
      env_peers = (\<lambda>p. refusing_peer)\<rparr>"

definition short_reply :: string where
  "short_reply =
     ''STAT pid 4242'' @ [CHR 0x0D, CHR 0x0A] @
     ''STAT time 1700000000'' @ [CHR 0x0D, CHR 0x0A] @ ''END''"

definition half_closed_peer :: peer where
  \<comment> \<open>answers the first command, after which every write fails\<close>
  "half_closed_peer =
     \<lparr>connect_error = None,
      write_error = (\<lambda>sent. if length sent = 1 then None else Some OSError),
      read_until = (\<lambda>sent token. Inr short_reply)\<rparr>"

definition flaky_host :: environment where
  "flaky_host =
     \<lparr>env_hostname = ''cache01'', env_now = 1700000000, env_ports = [11211],
      env_peers = (\<lambda>p. half_closed_peer)\<rparr>"

definition healthy_reply :: string where
  "healthy_reply =
     ''STAT pid 4242'' @ [CHR 0x0D, CHR 0x0A] @
     ''STAT uptime 10'' @ [CHR 0x0D, CHR 0x0A] @
     ''STAT time 1700000000'' @ [CHR 0x0D, CHR 0x0A] @
     ''STAT cmd_get 3'' @ [CHR 0x0D, CHR 0x0A] @ ''END'' @ [CHR 0x0D, CHR 0x0A]"

definition healthy_peer :: peer where
  \<comment> \<open>answers every command with \<open>healthy_reply\<close>\<close>
  "healthy_peer =
     \<lparr>connect_error = None, write_error = (\<lambda>sent. None),
      read_until = (\<lambda>sent token. Inr healthy_reply)\<rparr>"

definition eof_peer :: peer where
  \<comment> \<open>accepts the command, then closes the stream before any reply\<close>
  "eof_peer =
     \<lparr>connect_error = None, write_error = (\<lambda>sent. None),
      read_until = (\<lambda>sent token. Inl EOFError)\<rparr>"

definition mixed_host :: environment where
  \<comment> \<open>three servers are listed, only the second answers\<close>
  "mixed_host =
     \<lparr>env_hostname = ''cache01'', env_now = 1700000000, env_ports = [11211, 11212, 11213],
      env_peers = (\<lambda>p. if p = 11211 then eof_peer else if p = 11212 then healthy_peer
                         else refusing_peer)\<rparr>"




definition uptime_point :: metric_point where
  "uptime_point =
     \<lparr>metric = ''mc.uptime'', endpoint = ''cache01'', timestamp = 1700000000, step = 60,
      metric_value = PyFin False (10 * 2 ^ 49) (- 49), counterType = ''GAUGE'',
      tags = ''port=11212''\<rparr>"

definition cmd_get_point :: metric_point where
  "cmd_get_point =
     \<lparr>metric = ''mc.cmd_get_cps'', endpoint = ''cache01'', timestamp = 1700000000, step = 60,
      metric_value = PyFin False (3 * 2 ^ 51) (- 51), counterType = ''COUNTER'',
      tags = ''port=11212''\<rparr>"
section \<open>Properties of the normalizer\<close>

subsection \<open>Dictionary facts\<close>

lemma map_of_setitem: "map_of (setitem k v d) k' = (if k' = k then Some v else map_of d k')"
  by (simp add: setitem_def update_conv')

lemma map_of_delete: "map_of (AList.delete k d) k' = (if k' = k then None else map_of d k')"
  by (simp add: delete_conv')

lemma getitem_Some: "map_of d k = Some v \<Longrightarrow> getitem d k = Inr v"
  by (simp add: getitem_def)

lemma getitem_None: "map_of d k = None \<Longrightarrow> getitem d k = Inl KeyError"
  by (simp add: getitem_def)

lemma delitem_Some: "map_of d k = Some v \<Longrightarrow> delitem k d = Inr (AList.delete k d)"
  by (simp add: delitem_def)

lemma delitem_None: "map_of d k = None \<Longrightarrow> delitem k d = Inl KeyError"
  by (simp add: delitem_def)

lemma delitem_Inr: "delitem k d = Inr d' \<Longrightarrow> d' = AList.delete k d"
  by (auto simp: delitem_def split: option.splits)

lemma bind_r_Inr [simp]: "bind_r (Inr x) f = f x"
  by (simp add: bind_r_def)

lemma bind_r_Inl [simp]: "bind_r (Inl e) f = Inl e"
  by (simp add: bind_r_def)

lemma bind_r_eq_Inr: "bind_r r f = Inr y \<Longrightarrow> \<exists>x. r = Inr x \<and> f x = Inr y"
  by (cases r) simp_all

subsection \<open>What one step does\<close>

lemma float_item_Inr:
  "float_item s k = Inr x \<longleftrightarrow> (\<exists>v. map_of s k = Some v \<and> py_float v = Inr x)"
  by (auto simp: float_item_def getitem_def split: option.splits)

lemma float_item_None: "map_of s k = None \<Longrightarrow> float_item s k = Inl KeyError"
  by (simp add: float_item_def getitem_def)

lemma float_item_cong: "map_of s k = map_of t k \<Longrightarrow> float_item s k = float_item t k"
  by (simp add: float_item_def getitem_def)

lemma usage_step_Inr:
  assumes "usage_step s = Inr s'"
  shows "\<exists>fb fl. float_item s ''bytes'' = Inr fb \<and> float_item s ''limit_maxbytes'' = Inr fl \<and>
           \<not> is_zero fl \<and>
           s' = setitem ''usage'' (py_str (float_quot (float_mul (float_of_nat 100) fb) fl)) s"
  using assms unfolding usage_step_def
  by (auto simp: float_div_def dest!: bind_r_eq_Inr split: if_splits)

lemma usage_step_ok:
  assumes "float_item s ''bytes'' = Inr fb" "float_item s ''limit_maxbytes'' = Inr fl" "\<not> is_zero fl"
  shows "usage_step s = Inr (setitem ''usage'' (py_str (float_quot (float_mul (float_of_nat 100) fb) fl)) s)"
  using assms by (simp add: usage_step_def float_div_def)

lemma hit_ratio_step_Inr:
  assumes "hit_ratio_step r h m s = Inr s'"
  shows "\<exists>fh fm. float_item s h = Inr fh \<and> float_item s m = Inr fm \<and>
           s' = setitem r (hit_ratio fh fm) s"
  using assms unfolding hit_ratio_step_def
  by (auto simp: float_div_def hit_ratio_def dest!: bind_r_eq_Inr split: if_splits sum.splits)

lemma hit_ratio_step_ok:
  assumes "float_item s h = Inr fh" "float_item s m = Inr fm"
  shows "hit_ratio_step r h m s = Inr (setitem r (hit_ratio fh fm) s)"
  using assms by (simp add: hit_ratio_step_def float_div_def hit_ratio_def)

lemma hit_ratio_step_no_zero_division: "hit_ratio_step r h m s \<noteq> Inl ZeroDivisionError"
  by (auto simp: hit_ratio_step_def float_item_def bind_r_def getitem_def float_div_def py_float_def Let_def
      split: sum.splits option.splits if_splits prod.splits)

subsection \<open>Running the steps\<close>

lemma run_steps_append:
  "run_steps (fs @ gs) s =
     (case run_steps fs s of (None, s') \<Rightarrow> run_steps gs s' | (Some e, s') \<Rightarrow> (Some e, s'))"
  by (induction fs arbitrary: s) (auto split: sum.splits)

lemma run_steps_Some:
  "run_steps fs s = (Some e, s') \<Longrightarrow>
     \<exists>n<length fs. run_steps (take n fs) s = (None, s') \<and> (fs ! n) s' = Inl e"
proof (induction fs arbitrary: s)
  case Nil
  then show ?case by simp
next
  case (Cons f fs)
  show ?case
  proof (cases "f s")
    case (Inl e')
    with Cons.prems have "e' = e" "s' = s" by auto
    with Inl have "run_steps (take 0 (f # fs)) s = (None, s') \<and> ((f # fs) ! 0) s' = Inl e" by simp
    then show ?thesis by blast
  next
    case (Inr s1)
    with Cons.prems have "run_steps fs s1 = (Some e, s')" by simp
    from Cons.IH [OF this] obtain n where n: "n < length fs"
      "run_steps (take n fs) s1 = (None, s')" "(fs ! n) s' = Inl e" by blast
    with Inr have "run_steps (take (Suc n) (f # fs)) s = (None, s') \<and> ((f # fs) ! Suc n) s' = Inl e"
      by simp
    with n(1) show ?thesis by (metis Suc_less_eq length_Cons)
  qed
qed

lemma run_steps_keeps:
  "\<forall>f\<in>set fs. \<forall>a b. f a = Inr b \<longrightarrow> map_of b k = map_of a k \<Longrightarrow>
     map_of (snd (run_steps fs s)) k = map_of s k"
proof (induction fs arbitrary: s)
  case Nil
  then show ?case by simp
next
  case (Cons f fs)
  show ?case
  proof (cases "f s")
    case (Inl e)
    then show ?thesis by simp
  next
    case (Inr s1)
    have "map_of s1 k = map_of s k" using Cons.prems Inr by simp
    moreover have "map_of (snd (run_steps fs s1)) k = map_of s1 k"
      using Cons.IH [of s1] Cons.prems by simp
    ultimately show ?thesis using Inr by simp
  qed
qed

lemma delitem_keeps: "delitem k' a = Inr b \<Longrightarrow> k \<noteq> k' \<Longrightarrow> map_of b k = map_of a k"
  by (auto dest!: delitem_Inr simp: map_of_delete)

lemma usage_step_keeps: "usage_step a = Inr b \<Longrightarrow> k \<noteq> ''usage'' \<Longrightarrow> map_of b k = map_of a k"
  by (auto dest!: usage_step_Inr simp: map_of_setitem)

lemma hit_ratio_step_keeps: "hit_ratio_step r h m a = Inr b \<Longrightarrow> k \<noteq> r \<Longrightarrow> map_of b k = map_of a k"
  by (auto dest!: hit_ratio_step_Inr simp: map_of_setitem)

lemma wrap_stats_steps_keep:
  assumes "f \<in> set wrap_stats_steps" "f a = Inr b"
    and "k \<notin> set (''pid'' # ''time'' # derived_keys)"
  shows "map_of b k = map_of a k"
  using assms unfolding wrap_stats_steps_def derived_keys_def
  by (auto dest: delitem_keeps usage_step_keeps hit_ratio_step_keeps)

subsection \<open>The whole block\<close>

lemma wrap_stats_try_no_pid:
  "map_of s ''pid'' = None \<Longrightarrow> wrap_stats_try s = (Some KeyError, s)"
  by (simp add: wrap_stats_try_def wrap_stats_steps_def delitem_None)

lemma wrap_stats_try_no_time:
  assumes "map_of s ''pid'' \<noteq> None" "map_of s ''time'' = None"
  shows "wrap_stats_try s = (Some KeyError, AList.delete ''pid'' s)"
proof -
  from assms(1) have "delitem ''pid'' s = Inr (AList.delete ''pid'' s)"
    by (auto simp: delitem_def)
  moreover from assms(2) have "delitem ''time'' (AList.delete ''pid'' s) = Inl KeyError"
    by (simp add: delitem_None map_of_delete)
  ultimately show ?thesis by (simp add: wrap_stats_try_def wrap_stats_steps_def)
qed

lemma wrap_stats_try_deleted:
  assumes "map_of s ''pid'' \<noteq> None" "map_of s ''time'' \<noteq> None"
  shows "wrap_stats_try s =
           run_steps (drop 2 wrap_stats_steps) (AList.delete ''time'' (AList.delete ''pid'' s))"
proof -
  from assms(1) have "delitem ''pid'' s = Inr (AList.delete ''pid'' s)"
    by (auto simp: delitem_def)
  moreover from assms(2) have
    "delitem ''time'' (AList.delete ''pid'' s) = Inr (AList.delete ''time'' (AList.delete ''pid'' s))"
    by (auto simp: delitem_def map_of_delete)
  ultimately show ?thesis by (simp add: wrap_stats_try_def wrap_stats_steps_def)
qed

lemma deleted_keeps:
  "k \<noteq> ''pid'' \<Longrightarrow> k \<noteq> ''time'' \<Longrightarrow>
     map_of (AList.delete ''time'' (AList.delete ''pid'' s)) k = map_of s k"
  by (simp add: map_of_delete)

lemma wrap_stats_try_no_usage:
  assumes "map_of s ''pid'' \<noteq> None" "map_of s ''time'' \<noteq> None"
    and "usage_step (AList.delete ''time'' (AList.delete ''pid'' s)) = Inl e"
  shows "wrap_stats_try s = (Some e, AList.delete ''time'' (AList.delete ''pid'' s))"
  using wrap_stats_try_deleted [OF assms(1,2)] assms(3) by (simp add: wrap_stats_steps_def)

lemma usage_step_missing:
  assumes "map_of s ''bytes'' = None \<or> map_of s ''limit_maxbytes'' = None"
  shows "\<exists>e. usage_step s = Inl e"
proof (cases "usage_step s")
  case (Inl e)
  then show ?thesis by blast
next
  case (Inr s')
  from usage_step_Inr [OF this] assms show ?thesis by (auto simp: float_item_Inr)
qed

lemma set_take_subset: "f \<in> set (take n fs) \<Longrightarrow> f \<in> set fs"
  by (rule in_set_takeD)

lemma wrap_stats_prefix_keeps:
  assumes "run_steps (take n wrap_stats_steps) s = (None, s')"
    and "k \<notin> set (''pid'' # ''time'' # derived_keys)"
  shows "map_of s' k = map_of s k"
proof -
  have "\<forall>f\<in>set (take n wrap_stats_steps). \<forall>a b. f a = Inr b \<longrightarrow> map_of b k = map_of a k"
    using wrap_stats_steps_keep [OF _ _ assms(2)] by (blast dest: in_set_takeD)
  from run_steps_keeps [OF this, of s] assms(1) show ?thesis by simp
qed

lemma wrap_stats_try_split:
  assumes "run_steps (take n wrap_stats_steps) s = (None, s')"
  shows "wrap_stats_try s = run_steps (drop n wrap_stats_steps) s'"
proof -
  have "wrap_stats_try s = run_steps (take n wrap_stats_steps @ drop n wrap_stats_steps) s"
    by (simp add: wrap_stats_try_def)
  also have "\<dots> = run_steps (drop n wrap_stats_steps) s'"
    unfolding run_steps_append using assms by simp
  finally show ?thesis .
qed

lemma run_steps_sets:
  assumes "f s = Inr s'" "map_of s' k = Some v"
    and "\<forall>g\<in>set gs. \<forall>a b. g a = Inr b \<longrightarrow> map_of b k = map_of a k"
  shows "map_of (snd (run_steps (f # gs) s)) k = Some v"
  using run_steps_keeps [OF assms(3), of s'] assms(1,2) by simp

lemma wrap_stats_usage:
  assumes "map_of s ''pid'' \<noteq> None" "map_of s ''time'' \<noteq> None"
    and "float_item s ''bytes'' = Inr fb" "float_item s ''limit_maxbytes'' = Inr fl" "\<not> is_zero fl"
  shows "map_of (wrap_stats s) ''usage'' =
           Some (py_str (float_quot (float_mul (float_of_nat 100) fb) fl))"
proof -
  let ?s2 = "AList.delete ''time'' (AList.delete ''pid'' s)"
  let ?u = "py_str (float_quot (float_mul (float_of_nat 100) fb) fl)"
  have b: "float_item ?s2 ''bytes'' = Inr fb"
    using assms(3) float_item_cong [OF deleted_keeps, of "''bytes''" s] by simp
  have l: "float_item ?s2 ''limit_maxbytes'' = Inr fl"
    using assms(4) float_item_cong [OF deleted_keeps, of "''limit_maxbytes''" s] by simp
  have u: "usage_step ?s2 = Inr (setitem ''usage'' ?u ?s2)"
    by (rule usage_step_ok [OF b l assms(5)])
  have k: "\<forall>g\<in>set (drop 3 wrap_stats_steps). \<forall>a b. g a = Inr b \<longrightarrow>
             map_of b ''usage'' = map_of a ''usage''"
    by (auto simp: wrap_stats_steps_def intro: hit_ratio_step_keeps)
  have "map_of (snd (run_steps (usage_step # drop 3 wrap_stats_steps) ?s2)) ''usage'' = Some ?u"
    using run_steps_sets [of usage_step ?s2 "setitem ''usage'' ?u ?s2" "''usage''" ?u
        "drop 3 wrap_stats_steps"] u k
    by (simp add: map_of_setitem)
  moreover have "drop 2 wrap_stats_steps = usage_step # drop 3 wrap_stats_steps"
    by (simp add: wrap_stats_steps_def)
  ultimately show ?thesis
    using wrap_stats_try_deleted [OF assms(1,2)] by (simp add: wrap_stats_def)
qed

lemma wrap_stats_drops_pid:
  assumes "map_of s ''pid'' \<noteq> None"
  shows "map_of (wrap_stats s) ''pid'' = None"
proof -
  from assms have d: "delitem ''pid'' s = Inr (AList.delete ''pid'' s)"
    by (auto simp: delitem_def)
  have k: "\<forall>g\<in>set (drop 1 wrap_stats_steps). \<forall>a b. g a = Inr b \<longrightarrow>
             map_of b ''pid'' = map_of a ''pid''"
    by (auto simp: wrap_stats_steps_def intro: hit_ratio_step_keeps usage_step_keeps delitem_keeps)
  have "wrap_stats s = snd (run_steps (drop 1 wrap_stats_steps) (AList.delete ''pid'' s))"
    using d by (simp add: wrap_stats_def wrap_stats_try_def wrap_stats_steps_def)
  then show ?thesis using run_steps_keeps [OF k, of "AList.delete ''pid'' s"]
    by (simp add: map_of_delete)
qed

lemma wrap_stats_drops_time:
  assumes "map_of s ''pid'' \<noteq> None" "map_of s ''time'' \<noteq> None"
  shows "map_of (wrap_stats s) ''time'' = None"
proof -
  have k: "\<forall>g\<in>set (drop 2 wrap_stats_steps). \<forall>a b. g a = Inr b \<longrightarrow>
             map_of b ''time'' = map_of a ''time''"
    by (auto simp: wrap_stats_steps_def intro: hit_ratio_step_keeps usage_step_keeps)
  show ?thesis
    using wrap_stats_try_deleted [OF assms]
      run_steps_keeps [OF k, of "AList.delete ''time'' (AList.delete ''pid'' s)"]
    by (simp add: wrap_stats_def map_of_delete)
qed

lemma wrap_stats_ratio:
  assumes i: "i < 4" and p: "hit_pairs ! i = (r, h, m)"
    and pre: "run_steps (take (3 + i) wrap_stats_steps) s = (None, s')"
    and fh: "float_item s h = Inr fh" and fm: "float_item s m = Inr fm"
  shows "map_of (wrap_stats s) r = Some (hit_ratio fh fm)"
proof -
  from i p have hk: "h \<notin> set (''pid'' # ''time'' # derived_keys)"
    and mk: "m \<notin> set (''pid'' # ''time'' # derived_keys)"
    by (auto simp: hit_pairs_def derived_keys_def less_Suc_eq numeral_Bit0 numeral_Bit1 nth_Cons')
  have fh': "float_item s' h = Inr fh"
    using float_item_cong [OF wrap_stats_prefix_keeps [OF pre hk]] fh by simp
  have fm': "float_item s' m = Inr fm"
    using float_item_cong [OF wrap_stats_prefix_keeps [OF pre mk]] fm by simp
  have st: "hit_ratio_step r h m s' = Inr (setitem r (hit_ratio fh fm) s')"
    by (rule hit_ratio_step_ok [OF fh' fm'])
  from i p have d: "drop (3 + i) wrap_stats_steps = hit_ratio_step r h m # drop (4 + i) wrap_stats_steps"
    by (auto simp: hit_pairs_def wrap_stats_steps_def less_Suc_eq numeral_Bit0 numeral_Bit1)
  from i p have k: "\<forall>g\<in>set (drop (4 + i) wrap_stats_steps). \<forall>a b. g a = Inr b \<longrightarrow>
             map_of b r = map_of a r"
    by (auto simp: hit_pairs_def wrap_stats_steps_def less_Suc_eq numeral_Bit0 numeral_Bit1
        intro: hit_ratio_step_keeps)
  have "map_of (snd (run_steps (hit_ratio_step r h m # drop (4 + i) wrap_stats_steps) s')) r
          = Some (hit_ratio fh fm)"
    using run_steps_sets [of "hit_ratio_step r h m" s' "setitem r (hit_ratio fh fm) s'" r
        "hit_ratio fh fm" "drop (4 + i) wrap_stats_steps"] st k
    by (simp add: map_of_setitem)
  then show ?thesis using wrap_stats_try_split [OF pre] d by (simp add: wrap_stats_def)
qed

subsection \<open>Evaluating floats\<close>

lemmas float_eval =
  round_scaled_def round_even_def floor_log2_def round_half_even_def pack_def round_at_def
  bitlen.simps ge_pow2_def Let_def round_dec_def float_of_nat_def signed_def
  py_str_def repr_digits_def repr_digits_from.simps repr_candidate_def scaled_digits_def
  choose_digits_def floor_log10_def exp10_below.simps digits_of.simps digit_char_def
  format_repr_def exponent_text_def py_float_def strip_ws_def is_space_def is_digit_def
  parse_number_def parse_exponent_def nat_of_digits_def digit_val_def to_lower_def
  is_zero_def float_div_def

lemma py_float_50: "py_float ''50'' = Inr (PyFin False (50 * 2 ^ 47) (- 47))"
  by (simp add: float_eval)

lemma py_float_100: "py_float ''100'' = Inr (PyFin False (100 * 2 ^ 46) (- 46))"
  by (simp add: float_eval)

lemma py_float_3: "py_float ''3'' = Inr (PyFin False (3 * 2 ^ 51) (- 51))"
  by (simp add: float_eval)

lemma py_float_1: "py_float ''1'' = Inr (PyFin False (2 ^ 52) (- 52))"
  by (simp add: float_eval)

lemma py_float_0: "py_float ''0'' = Inr (PyFin False 0 (- 1074))"
  by (simp add: float_eval)

lemma usage_50_100:
  "py_str (float_quot (float_mul (float_of_nat 100) (PyFin False (50 * 2 ^ 47) (- 47)))
     (PyFin False (100 * 2 ^ 46) (- 46))) = ''50.0''"
  by (simp add: float_eval)

lemma hit_ratio_3_1: "hit_ratio (PyFin False (3 * 2 ^ 51) (- 51)) (PyFin False (2 ^ 52) (- 52)) = ''75.0''"
  by (simp add: hit_ratio_def float_eval)

lemma is_zero_add: "is_zero x \<Longrightarrow> is_zero y \<Longrightarrow> is_zero (float_add x y)"
  by (cases x; cases y) (simp_all add: is_zero_def signed_def)

lemma hit_ratio_zero: "is_zero x \<Longrightarrow> is_zero y \<Longrightarrow> hit_ratio x y = ''0.0''"
  by (simp add: hit_ratio_def is_zero_add)

subsection \<open>A complete run\<close>

lemma float_item_setitem: "k \<noteq> r \<Longrightarrow> float_item (setitem r v s) k = float_item s k"
  by (rule float_item_cong) (simp add: map_of_setitem)

lemma float_item_deleted:
  "k \<noteq> ''pid'' \<Longrightarrow> k \<noteq> ''time'' \<Longrightarrow>
     float_item (AList.delete ''time'' (AList.delete ''pid'' s)) k = float_item s k"
  by (rule float_item_cong) (simp add: map_of_delete)

lemma wrap_stats_prefix3:
  assumes "map_of s ''pid'' \<noteq> None" "map_of s ''time'' \<noteq> None"
    and "float_item s ''bytes'' = Inr fb" "float_item s ''limit_maxbytes'' = Inr fl" "\<not> is_zero fl"
  shows "run_steps (take 3 wrap_stats_steps) s =
           (None, setitem ''usage'' (py_str (float_quot (float_mul (float_of_nat 100) fb) fl))
                    (AList.delete ''time'' (AList.delete ''pid'' s)))"
proof -
  let ?s2 = "AList.delete ''time'' (AList.delete ''pid'' s)"
  from assms(1) have "delitem ''pid'' s = Inr (AList.delete ''pid'' s)"
    by (auto simp: delitem_def)
  moreover from assms(2) have "delitem ''time'' (AList.delete ''pid'' s) = Inr ?s2"
    by (auto simp: delitem_def map_of_delete)
  moreover have "usage_step ?s2 =
      Inr (setitem ''usage'' (py_str (float_quot (float_mul (float_of_nat 100) fb) fl)) ?s2)"
    using assms(3-5) by (intro usage_step_ok) (simp_all add: float_item_deleted)
  ultimately show ?thesis by (simp add: wrap_stats_steps_def)
qed

lemma wrap_stats_try_complete:
  assumes "map_of s ''pid'' \<noteq> None" "map_of s ''time'' \<noteq> None"
    and "float_item s ''bytes'' = Inr fb" "float_item s ''limit_maxbytes'' = Inr fl" "\<not> is_zero fl"
    and "float_item s ''get_hits'' = Inr h1" "float_item s ''get_misses'' = Inr m1"
    and "float_item s ''incr_hits'' = Inr h2" "float_item s ''incr_misses'' = Inr m2"
    and "float_item s ''decr_hits'' = Inr h3" "float_item s ''decr_misses'' = Inr m3"
    and "float_item s ''delete_hits'' = Inr h4" "float_item s ''delete_misses'' = Inr m4"
  shows "wrap_stats_try s =
    (None,
     setitem ''delete_hit_ratio'' (hit_ratio h4 m4)
       (setitem ''decr_hit_ratio'' (hit_ratio h3 m3)
         (setitem ''incr_hit_ratio'' (hit_ratio h2 m2)
           (setitem ''get_hit_ratio'' (hit_ratio h1 m1)
             (setitem ''usage'' (py_str (float_quot (float_mul (float_of_nat 100) fb) fl))
               (AList.delete ''time'' (AList.delete ''pid'' s)))))))"
proof -
  let ?s3 = "setitem ''usage'' (py_str (float_quot (float_mul (float_of_nat 100) fb) fl))
               (AList.delete ''time'' (AList.delete ''pid'' s))"
  let ?s4 = "setitem ''get_hit_ratio'' (hit_ratio h1 m1) ?s3"
  let ?s5 = "setitem ''incr_hit_ratio'' (hit_ratio h2 m2) ?s4"
  let ?s6 = "setitem ''decr_hit_ratio'' (hit_ratio h3 m3) ?s5"
  have p: "run_steps (take 3 wrap_stats_steps) s = (None, ?s3)"
    by (rule wrap_stats_prefix3 [OF assms(1-5)])
  have 4: "hit_ratio_step ''get_hit_ratio'' ''get_hits'' ''get_misses'' ?s3 = Inr ?s4"
    using assms(6,7) by (intro hit_ratio_step_ok) (simp_all add: float_item_setitem float_item_deleted)
  have 5: "hit_ratio_step ''incr_hit_ratio'' ''incr_hits'' ''incr_misses'' ?s4 = Inr ?s5"
    using assms(8,9) by (intro hit_ratio_step_ok) (simp_all add: float_item_setitem float_item_deleted)
  have 6: "hit_ratio_step ''decr_hit_ratio'' ''decr_hits'' ''decr_misses'' ?s5 = Inr ?s6"
    using assms(10,11) by (intro hit_ratio_step_ok) (simp_all add: float_item_setitem float_item_deleted)
  have 7: "hit_ratio_step ''delete_hit_ratio'' ''delete_hits'' ''delete_misses'' ?s6 =
             Inr (setitem ''delete_hit_ratio'' (hit_ratio h4 m4) ?s6)"
    using assms(12,13) by (intro hit_ratio_step_ok) (simp_all add: float_item_setitem float_item_deleted)
  have "drop 3 wrap_stats_steps =
     [hit_ratio_step ''get_hit_ratio'' ''get_hits'' ''get_misses'',
      hit_ratio_step ''incr_hit_ratio'' ''incr_hits'' ''incr_misses'',
      hit_ratio_step ''decr_hit_ratio'' ''decr_hits'' ''decr_misses'',
      hit_ratio_step ''delete_hit_ratio'' ''delete_hits'' ''delete_misses'']"
    by (simp add: wrap_stats_steps_def)
  then show ?thesis using wrap_stats_try_split [OF p] 4 5 6 7 by simp
qed

lemma wrap_stats_try_None:
  assumes "wrap_stats_try s = (None, s')"
  shows "\<exists>fb fl h1 m1 h2 m2 h3 m3 h4 m4.
    map_of s ''pid'' \<noteq> None \<and> map_of s ''time'' \<noteq> None \<and>
    float_item s ''bytes'' = Inr fb \<and> float_item s ''limit_maxbytes'' = Inr fl \<and> \<not> is_zero fl \<and>
    float_item s ''get_hits'' = Inr h1 \<and> float_item s ''get_misses'' = Inr m1 \<and>
    float_item s ''incr_hits'' = Inr h2 \<and> float_item s ''incr_misses'' = Inr m2 \<and>
    float_item s ''decr_hits'' = Inr h3 \<and> float_item s ''decr_misses'' = Inr m3 \<and>
    float_item s ''delete_hits'' = Inr h4 \<and> float_item s ''delete_misses'' = Inr m4 \<and>
    s' = setitem ''delete_hit_ratio'' (hit_ratio h4 m4)
       (setitem ''decr_hit_ratio'' (hit_ratio h3 m3)
         (setitem ''incr_hit_ratio'' (hit_ratio h2 m2)
           (setitem ''get_hit_ratio'' (hit_ratio h1 m1)
             (setitem ''usage'' (py_str (float_quot (float_mul (float_of_nat 100) fb) fl))
               (AList.delete ''time'' (AList.delete ''pid'' s))))))"
proof -
  from assms obtain s1 s2 s3 s4 s5 s6 where
    1: "delitem ''pid'' s = Inr s1" and 2: "delitem ''time'' s1 = Inr s2" and
    3: "usage_step s2 = Inr s3" and
    4: "hit_ratio_step ''get_hit_ratio'' ''get_hits'' ''get_misses'' s3 = Inr s4" and
    5: "hit_ratio_step ''incr_hit_ratio'' ''incr_hits'' ''incr_misses'' s4 = Inr s5" and
    6: "hit_ratio_step ''decr_hit_ratio'' ''decr_hits'' ''decr_misses'' s5 = Inr s6" and
    7: "hit_ratio_step ''delete_hit_ratio'' ''delete_hits'' ''delete_misses'' s6 = Inr s'"
    by (auto simp: wrap_stats_try_def wrap_stats_steps_def split: sum.splits)
  from 1 have p: "map_of s ''pid'' \<noteq> None" and s1: "s1 = AList.delete ''pid'' s"
    by (auto simp: delitem_def split: option.splits)
  from 2 s1 have t: "map_of s ''time'' \<noteq> None" and s2: "s2 = AList.delete ''time'' (AList.delete ''pid'' s)"
    by (auto simp: delitem_def map_of_delete split: option.splits if_splits)
  from usage_step_Inr [OF 3] obtain fb fl where
    u: "float_item s2 ''bytes'' = Inr fb" "float_item s2 ''limit_maxbytes'' = Inr fl" "\<not> is_zero fl"
    "s3 = setitem ''usage'' (py_str (float_quot (float_mul (float_of_nat 100) fb) fl)) s2" by blast
  from hit_ratio_step_Inr [OF 4] obtain h1 m1 where
    a: "float_item s3 ''get_hits'' = Inr h1" "float_item s3 ''get_misses'' = Inr m1"
    "s4 = setitem ''get_hit_ratio'' (hit_ratio h1 m1) s3" by blast
  from hit_ratio_step_Inr [OF 5] obtain h2 m2 where
    b: "float_item s4 ''incr_hits'' = Inr h2" "float_item s4 ''incr_misses'' = Inr m2"
    "s5 = setitem ''incr_hit_ratio'' (hit_ratio h2 m2) s4" by blast
  from hit_ratio_step_Inr [OF 6] obtain h3 m3 where
    c: "float_item s5 ''decr_hits'' = Inr h3" "float_item s5 ''decr_misses'' = Inr m3"
    "s6 = setitem ''decr_hit_ratio'' (hit_ratio h3 m3) s5" by blast
  from hit_ratio_step_Inr [OF 7] obtain h4 m4 where
    d: "float_item s6 ''delete_hits'' = Inr h4" "float_item s6 ''delete_misses'' = Inr m4"
    "s' = setitem ''delete_hit_ratio'' (hit_ratio h4 m4) s6" by blast
  from u s2 have u': "float_item s ''bytes'' = Inr fb" "float_item s ''limit_maxbytes'' = Inr fl"
    by (simp_all add: float_item_deleted)
  from a u(4) s2 have a': "float_item s ''get_hits'' = Inr h1" "float_item s ''get_misses'' = Inr m1"
    by (simp_all add: float_item_setitem float_item_deleted)
  from b a(3) u(4) s2 have b': "float_item s ''incr_hits'' = Inr h2" "float_item s ''incr_misses'' = Inr m2"
    by (simp_all add: float_item_setitem float_item_deleted)
  from c b(3) a(3) u(4) s2 have c': "float_item s ''decr_hits'' = Inr h3" "float_item s ''decr_misses'' = Inr m3"
    by (simp_all add: float_item_setitem float_item_deleted)
  from d c(3) b(3) a(3) u(4) s2 have d': "float_item s ''delete_hits'' = Inr h4" "float_item s ''delete_misses'' = Inr m4"
    by (simp_all add: float_item_setitem float_item_deleted)
  have "s' = setitem ''delete_hit_ratio'' (hit_ratio h4 m4)
       (setitem ''decr_hit_ratio'' (hit_ratio h3 m3)
         (setitem ''incr_hit_ratio'' (hit_ratio h2 m2)
           (setitem ''get_hit_ratio'' (hit_ratio h1 m1)
             (setitem ''usage'' (py_str (float_quot (float_mul (float_of_nat 100) fb) fl))
               (AList.delete ''time'' (AList.delete ''pid'' s))))))"
    using d(3) c(3) b(3) a(3) u(4) s2 by simp
  with p t u' u(3) a' b' c' d' show ?thesis by blast
qed

lemma wrap_stats_try_missing:
  assumes "k \<in> set required_keys" "map_of s k = None"
  shows "fst (wrap_stats_try s) \<noteq> None"
proof
  assume "fst (wrap_stats_try s) = None"
  then have "wrap_stats_try s = (None, snd (wrap_stats_try s))"
    by (metis prod.collapse)
  from wrap_stats_try_None [OF this] have "\<forall>k\<in>set required_keys. \<exists>x. float_item s k = Inr x"
    unfolding required_keys_def by auto
  with assms(1) obtain x where "float_item s k = Inr x" by blast
  with float_item_None [OF assms(2)] show False by simp
qed

section \<open>Properties of the matcher\<close>

lemma takeWhile_stop: "\<not> P y \<Longrightarrow> takeWhile P (l @ y # r) = takeWhile P l"
  by (induction l) auto

lemma m_atom_le: "n \<in> set (m_atom a s) \<Longrightarrow> n \<le> length s"
proof (cases a)
  case (One c)
  then show "n \<in> set (m_atom a s) \<Longrightarrow> n \<le> length s" by (auto split: list.splits if_splits)
next
  case (Star c)
  assume "n \<in> set (m_atom a s)"
  with Star have "n \<le> length (takeWhile (in_cls c) s)" by auto
  then show "n \<le> length s" using length_takeWhile_le [of "in_cls c" s] by linarith
next
  case (Plus c)
  assume "n \<in> set (m_atom a s)"
  with Plus have "n \<le> length (takeWhile (in_cls c) s)" by auto
  then show "n \<le> length s" using length_takeWhile_le [of "in_cls c" s] by linarith
next
  case (Opt c)
  then show "n \<in> set (m_atom a s) \<Longrightarrow> n \<le> length s" by (auto split: list.splits if_splits)
qed

lemma m_atom_local: "nl_free_atom a \<Longrightarrow> m_atom a (l @ CHR 0x0A # r) = m_atom a l"
  by (cases a; cases l) (simp_all add: nl_free_atom_def takeWhile_stop)

lemma m_atoms_le: "n \<in> set (m_atoms as s) \<Longrightarrow> n \<le> length s"
proof (induction as arbitrary: n s)
  case Nil
  then show ?case by simp
next
  case (Cons a as)
  then obtain i k where i: "i \<in> set (m_atom a s)" and k: "k \<in> set (m_atoms as (drop i s))"
    and n: "n = i + k" by auto
  from Cons.IH [OF k] m_atom_le [OF i] n show ?case by simp
qed

lemma m_atoms_local:
  "list_all nl_free_atom as \<Longrightarrow> m_atoms as (l @ CHR 0x0A # r) = m_atoms as l"
proof (induction as arbitrary: l)
  case Nil
  then show ?case by simp
next
  case (Cons a as)
  then have a: "nl_free_atom a" and as: "list_all nl_free_atom as" by simp_all
  have "map (\<lambda>n. map (\<lambda>k. n + k) (m_atoms as (drop n (l @ CHR 0x0A # r)))) (m_atom a l) =
        map (\<lambda>n. map (\<lambda>k. n + k) (m_atoms as (drop n l))) (m_atom a l)"
  proof (rule map_cong [OF refl])
    fix n assume "n \<in> set (m_atom a l)"
    then have "n \<le> length l" by (rule m_atom_le)
    then show "map (\<lambda>k. n + k) (m_atoms as (drop n (l @ CHR 0x0A # r))) =
               map (\<lambda>k. n + k) (m_atoms as (drop n l))"
      using Cons.IH [OF as, of "drop n l"] by simp
  qed
  then show ?case by (simp only: m_atoms.simps m_atom_local [OF a])
qed

lemma m_pieces_le: "(gs, n) \<in> set (m_pieces ps s) \<Longrightarrow> n \<le> length s"
proof (induction ps s arbitrary: gs n rule: m_pieces.induct)
  case (1 s)
  then show ?case by simp
next
  case (2 a ps s)
  then obtain i k where i: "i \<in> set (m_atom a s)"
    and k: "(gs, k) \<in> set (m_pieces ps (drop i s))" and n: "n = i + k" by auto
  from "2.IH" [OF i k] m_atom_le [OF i] n show ?case by simp
next
  case (3 as ps s)
  then obtain i k gs' where i: "i \<in> set (m_atoms as s)"
    and k: "(gs', k) \<in> set (m_pieces ps (drop i s))" and n: "n = i + k" by auto
  from "3.IH" [OF i k] m_atoms_le [OF i] n show ?case by simp
qed

lemma m_pieces_local:
  "nl_free ps \<Longrightarrow> m_pieces ps (l @ CHR 0x0A # r) = m_pieces ps l"
proof (induction ps l rule: m_pieces.induct)
  case (1 s)
  then show ?case by simp
next
  case (2 a ps s)
  then have a: "nl_free_atom a" and ps: "nl_free ps" by (simp_all add: nl_free_def)
  have "map (\<lambda>n. map (\<lambda>(gs, k). (gs, n + k)) (m_pieces ps (drop n (s @ CHR 0x0A # r)))) (m_atom a s) =
        map (\<lambda>n. map (\<lambda>(gs, k). (gs, n + k)) (m_pieces ps (drop n s))) (m_atom a s)"
  proof (rule map_cong [OF refl])
    fix n assume n: "n \<in> set (m_atom a s)"
    then have "n \<le> length s" by (rule m_atom_le)
    then show "map (\<lambda>(gs, k). (gs, n + k)) (m_pieces ps (drop n (s @ CHR 0x0A # r))) =
               map (\<lambda>(gs, k). (gs, n + k)) (m_pieces ps (drop n s))"
      using "2.IH" [OF n ps] by simp
  qed
  then show ?case by (simp only: m_pieces.simps m_atom_local [OF a])
next
  case (3 as ps s)
  then have as: "list_all nl_free_atom as" and ps: "nl_free ps" by (simp_all add: nl_free_def)
  have "map (\<lambda>n. map (\<lambda>(gs, k). (take n (s @ CHR 0x0A # r) # gs, n + k))
               (m_pieces ps (drop n (s @ CHR 0x0A # r)))) (m_atoms as s) =
        map (\<lambda>n. map (\<lambda>(gs, k). (take n s # gs, n + k)) (m_pieces ps (drop n s))) (m_atoms as s)"
  proof (rule map_cong [OF refl])
    fix n assume n: "n \<in> set (m_atoms as s)"
    then have "n \<le> length s" by (rule m_atoms_le)
    then show "map (\<lambda>(gs, k). (take n (s @ CHR 0x0A # r) # gs, n + k))
                 (m_pieces ps (drop n (s @ CHR 0x0A # r))) =
               map (\<lambda>(gs, k). (take n s # gs, n + k)) (m_pieces ps (drop n s))"
      using "3.IH" [OF n ps] by simp
  qed
  then show ?case by (simp only: m_pieces.simps m_atoms_local [OF as])
qed

lemma match_at_local: "nl_free re \<Longrightarrow> match_at re (l @ CHR 0x0A # r) = match_at re l"
  by (simp add: match_at_def m_pieces_local)

lemma match_at_le: "match_at re s = Some (gs, n) \<Longrightarrow> n \<le> length s"
  using m_pieces_le [of gs n re s] by (auto simp: match_at_def split: list.splits)

lemma findall_newline:
  "nl_free re \<Longrightarrow> match_at re [] = None \<Longrightarrow>
     findall re (l @ CHR 0x0A # r) = findall re l @ findall re r"
proof (induction re l rule: findall.induct)
  case (1 re)
  have "match_at re (CHR 0x0A # r) = match_at re []"
    using match_at_local [OF "1.prems"(1), of "[]" r] by simp
  with "1.prems"(2) show ?case by simp
next
  case (2 re x xs)
  have m: "match_at re (x # (xs @ CHR 0x0A # r)) = match_at re (x # xs)"
    using match_at_local [OF "2.prems"(1), of "x # xs" r] by simp
  show ?case
  proof (cases "match_at re (x # xs)")
    case None
    have "findall re (xs @ CHR 0x0A # r) = findall re xs @ findall re r"
      by (rule "2.IH"(1) [OF None "2.prems"])
    moreover have "findall re (x # (xs @ CHR 0x0A # r)) = findall re (xs @ CHR 0x0A # r)"
      using m None by simp
    moreover have "findall re (x # xs) = findall re xs"
      using None by simp
    ultimately show ?thesis by simp
  next
    case (Some a)
    obtain gs n where a: "a = (gs, n)" by (cases a)
    have s: "match_at re (x # xs) = Some (gs, n)" using Some a by simp
    have "n \<le> length (x # xs)" by (rule match_at_le [OF s])
    then have d: "drop (n - 1) (xs @ CHR 0x0A # r) = drop (n - 1) xs @ CHR 0x0A # r" by simp
    have "findall re (drop (n - 1) xs @ CHR 0x0A # r) =
            findall re (drop (n - 1) xs) @ findall re r"
      by (rule "2.IH"(2) [OF s refl "2.prems"])
    moreover have "findall re (x # (xs @ CHR 0x0A # r)) =
        gs # findall re (drop (n - 1) (xs @ CHR 0x0A # r))"
      using m s by simp
    moreover have "findall re (x # xs) = gs # findall re (drop (n - 1) xs)"
      using s by simp
    ultimately show ?thesis using d by simp
  qed
qed

lemma split_lines_not_Nil: "split_lines s \<noteq> []"
  by (induction s) (auto split: list.splits)

lemma split_lines_decomp:
  "split_lines s = l # ls \<Longrightarrow>
     (ls = [] \<and> s = l) \<or> (\<exists>rest. s = l @ CHR 0x0A # rest \<and> split_lines rest = ls)"
proof (induction s arbitrary: l ls)
  case Nil
  then show ?case by simp
next
  case (Cons c cs)
  show ?case
  proof (cases "c = CHR 0x0A")
    case True
    with Cons.prems show ?thesis by auto
  next
    case False
    obtain l' ls' where s: "split_lines cs = l' # ls'"
      using split_lines_not_Nil [of cs] by (cases "split_lines cs") auto
    with False Cons.prems have l: "l = c # l'" and ls: "ls = ls'" by auto
    from Cons.IH [OF s] l ls show ?thesis by auto
  qed
qed

lemma findall_lines:
  assumes "nl_free re" and "match_at re [] = None"
  shows "findall re s = concat (map (findall re) (split_lines s))"
proof (induction s rule: length_induct)
  case (1 s)
  obtain l ls where sl: "split_lines s = l # ls"
    using split_lines_not_Nil [of s] by (cases "split_lines s") auto
  from split_lines_decomp [OF sl] show ?case
  proof
    assume "ls = [] \<and> s = l"
    with sl show ?thesis by simp
  next
    assume "\<exists>rest. s = l @ CHR 0x0A # rest \<and> split_lines rest = ls"
    then obtain rest where t: "s = l @ CHR 0x0A # rest" and r: "split_lines rest = ls" by blast
    then have "length rest < length s" by simp
    with 1 have "findall re rest = concat (map (findall re) (split_lines rest))" by blast
    with sl t r show ?thesis by (simp add: findall_newline [OF assms])
  qed
qed

lemma stat_regex_nl_free: "nl_free stat_regex"
  by (simp add: nl_free_def stat_regex_def lits_def nl_free_atom_def is_digit_def)

lemma stat_regex_not_empty: "match_at stat_regex [] = None"
  by (simp add: match_at_def stat_regex_def lits_def)

lemma findall_stat_lines: "map as_pair (findall stat_regex s) = stat_lines s"
proof -
  have "findall stat_regex s = concat (map (findall stat_regex) (split_lines s))"
    by (rule findall_lines [OF stat_regex_nl_free stat_regex_not_empty])
  then have "map as_pair (findall stat_regex s) =
      map as_pair (concat (map (findall stat_regex) (split_lines s)))"
    by simp
  also have "\<dots> = stat_lines s"
    by (simp add: stat_lines_def map_concat comp_def)
  finally show ?thesis .
qed

subsection \<open>What a match of the stat pattern looks like\<close>

lemma m_pieces_lit:
  "(gs, n) \<in> set (m_pieces (Atom (One (Lit c)) # ps) s) \<longleftrightarrow>
     (\<exists>t k. s = c # t \<and> (gs, k) \<in> set (m_pieces ps t) \<and> n = Suc k)"
  by (cases s) auto

lemma m_pieces_group:
  "(gs, n) \<in> set (m_pieces (Group as # ps) s) \<longleftrightarrow>
     (\<exists>i gs' k. i \<in> set (m_atoms as s) \<and> (gs', k) \<in> set (m_pieces ps (drop i s)) \<and>
        gs = take i s # gs' \<and> n = i + k)"
  by auto

lemma take_takeWhile_all: "n \<le> length (takeWhile P xs) \<Longrightarrow> list_all P (take n xs)"
proof (induction xs arbitrary: n)
  case Nil
  then show ?case by simp
next
  case (Cons x xs)
  then show ?case by (cases n) (auto split: if_splits)
qed

lemma m_atoms_any:
  "i \<in> set (m_atoms [Star AnyChar] s) \<Longrightarrow> CHR 0x0A \<notin> set (take i s)"
proof -
  assume "i \<in> set (m_atoms [Star AnyChar] s)"
  then have "i \<le> length (takeWhile (in_cls AnyChar) s)" by auto
  from take_takeWhile_all [OF this] show ?thesis by (auto simp: list_all_iff)
qed

lemma number_text_shape:
  assumes "list_all is_digit ds1" "ds1 \<noteq> []" "list_all is_digit ds2" "dot = [] \<or> dot = ''.''"
  shows "is_number_text (ds1 @ dot @ ds2)"
proof -
  have nd: "\<not> is_digit (CHR ''.'')" by (simp add: is_digit_def)
  from assms(4) show ?thesis
  proof
    assume "dot = []"
    then have v: "ds1 @ dot @ ds2 = ds1 @ ds2" by simp
    from assms(1,3) have a: "\<forall>x\<in>set (ds1 @ ds2). is_digit x"
      by (auto simp: list_all_iff)
    have tw: "takeWhile is_digit (ds1 @ ds2) = ds1 @ ds2"
      using a by (simp only: takeWhile_eq_all_conv)
    have dw: "dropWhile is_digit (ds1 @ ds2) = []"
      using a by (simp only: dropWhile_eq_Nil_conv)
    show ?thesis unfolding v is_number_text_def tw dw using assms(2) by simp
  next
    assume d: "dot = ''.''"
    from assms(1) have "takeWhile is_digit (ds1 @ CHR ''.'' # ds2) = ds1"
      by (simp add: takeWhile_append nd list_all_iff)
    moreover from assms(1) have "dropWhile is_digit (ds1 @ CHR ''.'' # ds2) = CHR ''.'' # ds2"
      by (simp add: dropWhile_append nd list_all_iff)
    ultimately show ?thesis using assms(2,3) d by (simp add: is_number_text_def)
  qed
qed

lemma in_cls_Digit: "in_cls Digit = is_digit"
  by (rule ext) simp

lemma m_atoms_Cons:
  "i \<in> set (m_atoms (a # as) s) \<longleftrightarrow>
     (\<exists>n k. n \<in> set (m_atom a s) \<and> k \<in> set (m_atoms as (drop n s)) \<and> i = n + k)"
  by auto

lemma m_atoms_number:
  assumes "i \<in> set (m_atoms [Plus Digit, Opt (Lit (CHR ''.'')), Star Digit] s)"
  shows "is_number_text (take i s)"
proof -
  from assms obtain a k1 where a: "a \<in> set (m_atom (Plus Digit) s)"
    and k1: "k1 \<in> set (m_atoms [Opt (Lit (CHR ''.'')), Star Digit] (drop a s))"
    and i1: "i = a + k1"
    unfolding m_atoms_Cons by blast
  from k1 obtain b k2 where b: "b \<in> set (m_atom (Opt (Lit (CHR ''.''))) (drop a s))"
    and k2: "k2 \<in> set (m_atoms [Star Digit] (drop b (drop a s)))"
    and i2: "k1 = b + k2"
    unfolding m_atoms_Cons by blast
  from k2 obtain c k3 where c: "c \<in> set (m_atom (Star Digit) (drop b (drop a s)))"
    and k3: "k3 \<in> set (m_atoms [] (drop c (drop b (drop a s))))"
    and i3: "k2 = c + k3"
    unfolding m_atoms_Cons by blast
  from k3 i1 i2 i3 have i: "i = a + (b + c)" by simp
  from a have a1: "1 \<le> a" and a2: "a \<le> length (takeWhile is_digit s)"
    by (auto simp: in_cls_Digit)
  have a3: "a \<le> length s" using a by (rule m_atom_le)
  from c have c2: "c \<le> length (takeWhile is_digit (drop b (drop a s)))"
    by (auto simp: in_cls_Digit)
  have t: "take i s = take a s @ take b (drop a s) @ take c (drop b (drop a s))"
    unfolding i by (simp add: take_add)
  have d1: "list_all is_digit (take a s)" by (rule take_takeWhile_all [OF a2])
  have n1: "take a s \<noteq> []" using a1 a2 by (cases s) auto
  have d2: "list_all is_digit (take c (drop b (drop a s)))" by (rule take_takeWhile_all [OF c2])
  have dot: "take b (drop a s) = [] \<or> take b (drop a s) = ''.''"
    using b by (cases "drop a s") (auto split: if_splits)
  show ?thesis unfolding t by (rule number_text_shape [OF d1 n1 d2 dot])
qed

lemma stat_regex_match:
  assumes "(gs, n) \<in> set (m_pieces stat_regex s)"
  shows "\<exists>name v. gs = [name, v] \<and> CHR 0x0A \<notin> set name \<and> is_number_text v"
proof -
  let ?g2 = "[Plus Digit, Opt (Lit (CHR ''.'')), Star Digit]"
  from assms obtain t k where "(gs, k) \<in> set (m_pieces
      ([Group [Star AnyChar]] @ lits '' '' @ [Group ?g2] @ [Atom (One (Lit (CHR 0x0D)))]) t)"
    unfolding stat_regex_def lits_def by (auto simp: m_pieces_lit simp del: m_pieces.simps)
  then obtain i gs1 k1 where i: "i \<in> set (m_atoms [Star AnyChar] t)"
    and r: "(gs1, k1) \<in> set (m_pieces (lits '' '' @ [Group ?g2] @ [Atom (One (Lit (CHR 0x0D)))]) (drop i t))"
    and g: "gs = take i t # gs1"
    by (auto simp: m_pieces_group simp del: m_pieces.simps m_atoms.simps)
  from r obtain u k2 where "(gs1, k2) \<in> set (m_pieces ([Group ?g2] @ [Atom (One (Lit (CHR 0x0D)))]) u)"
    unfolding lits_def by (auto simp: m_pieces_lit simp del: m_pieces.simps)
  then obtain j gs2 k3 where j: "j \<in> set (m_atoms ?g2 u)"
    and r2: "(gs2, k3) \<in> set (m_pieces [Atom (One (Lit (CHR 0x0D)))] (drop j u))"
    and g1: "gs1 = take j u # gs2"
    by (auto simp: m_pieces_group simp del: m_pieces.simps m_atoms.simps)
  from r2 have "gs2 = []" by (cases "drop j u") (auto split: if_splits)
  with g g1 m_atoms_any [OF i] m_atoms_number [OF j] show ?thesis by simp
qed

lemma match_at_member: "match_at re s = Some r \<Longrightarrow> r \<in> set (m_pieces re s)"
  by (auto simp: match_at_def split: list.splits)

lemma findall_member:
  "gs \<in> set (findall re s) \<Longrightarrow> \<exists>t n. (gs, n) \<in> set (m_pieces re t)"
proof (induction re s rule: findall.induct)
  case (1 re)
  show ?case
  proof (cases "match_at re []")
    case None
    with 1 show ?thesis by simp
  next
    case (Some a)
    obtain g n where a: "a = (g, n)" by (cases a)
    with Some 1 have "gs = g" by simp
    moreover from match_at_member [OF Some] a have "(g, n) \<in> set (m_pieces re [])" by simp
    ultimately show ?thesis by blast
  qed
next
  case (2 re x xs)
  show ?case
  proof (cases "match_at re (x # xs)")
    case None
    with 2 show ?thesis by simp
  next
    case (Some a)
    obtain g n where a: "a = (g, n)" by (cases a)
    with Some "2.prems" have "gs = g \<or> gs \<in> set (findall re (drop (n - 1) xs))" by simp
    then show ?thesis
    proof
      assume "gs = g"
      with Some a match_at_member show ?thesis by blast
    next
      assume "gs \<in> set (findall re (drop (n - 1) xs))"
      with "2.IH"(2) Some a show ?thesis by blast
    qed
  qed
qed

lemma stat_lines_shape:
  assumes "(k, v) \<in> set (stat_lines s)"
  shows "CHR 0x0A \<notin> set k \<and> is_number_text v"
proof -
  from assms have "(k, v) \<in> set (map as_pair (findall stat_regex s))"
    by (simp add: findall_stat_lines)
  then obtain gs where g: "gs \<in> set (findall stat_regex s)" and p: "(k, v) = as_pair gs" by auto
  from findall_member [OF g] obtain t n where "(gs, n) \<in> set (m_pieces stat_regex t)" by blast
  from stat_regex_match [OF this] p show ?thesis by (auto simp: as_pair_def)
qed

subsection \<open>\<open>dict(pairs)\<close>\<close>

lemma fold_setitem_map_of:
  "map_of (fold (\<lambda>(k, v). setitem k v) ps d) = map_of d ++ map_of (rev ps)"
proof (induction ps arbitrary: d)
  case Nil
  then show ?case by simp
next
  case (Cons p ps)
  obtain k v where p: "p = (k, v)" by (cases p)
  have "map_of (setitem k v d) = (map_of d)(k \<mapsto> v)"
    by (simp add: setitem_def update_conv')
  then show ?case using Cons [of "setitem k v d"] p by (simp add: map_add_def fun_eq_iff split: option.splits)
qed

lemma py_dict_map_of: "map_of (py_dict ps) = map_of (rev ps)"
  by (simp add: py_dict_def fold_setitem_map_of)



lemma fold_setitem_distinct:
  "distinct (map fst d) \<Longrightarrow> distinct (map fst (fold (\<lambda>(k, v). setitem k v) ps d))"
proof (induction ps arbitrary: d)
  case Nil
  then show ?case by simp
next
  case (Cons p ps)
  obtain k v where p: "p = (k, v)" by (cases p)
  from Cons.prems have "distinct (map fst (setitem k v d))"
    by (simp add: setitem_def distinct_update)
  from Cons.IH [OF this] p show ?case by simp
qed

lemma py_dict_distinct: "distinct (map fst (py_dict ps))"
  by (simp add: py_dict_def fold_setitem_distinct)

lemma py_dict_subset: "set (py_dict ps) \<subseteq> set ps"
proof
  fix x assume x: "x \<in> set (py_dict ps)"
  obtain k v where kv: "x = (k, v)" by (cases x)
  with x py_dict_distinct [of ps] have "map_of (py_dict ps) k = Some v" by simp
  then have "map_of (rev ps) k = Some v" by (simp add: py_dict_map_of)
  then have "(k, v) \<in> set (rev ps)" by (rule map_of_SomeD)
  with kv show "x \<in> set ps" by simp
qed

section \<open>Texts that \<open>float\<close> accepts\<close>

lemma span_digits:
  assumes "list_all P xs" and "ys = [] \<or> \<not> P (hd ys)"
  shows "takeWhile P (xs @ ys) = xs" and "dropWhile P (xs @ ys) = ys"
proof -
  from assms(1) have a: "\<forall>x\<in>set xs. P x" by (simp add: list_all_iff)
  from assms(2) have t: "takeWhile P ys = []" and d: "dropWhile P ys = ys"
    by (cases ys; auto)+
  from a t show "takeWhile P (xs @ ys) = xs" by (simp add: takeWhile_append)
  from a d show "dropWhile P (xs @ ys) = ys" by (simp add: dropWhile_append)
qed

lemma strip_ws_id:
  assumes "s \<noteq> []" "\<not> is_space (hd s)" "\<not> is_space (last s)"
  shows "strip_ws s = s"
proof -
  from assms(1,2) have 1: "dropWhile is_space s = s" by (cases s) auto
  from assms(1,3) have "rev s \<noteq> []" "\<not> is_space (hd (rev s))" by (simp_all add: hd_rev)
  then have "dropWhile is_space (rev s) = rev s" by (cases "rev s") auto
  with 1 show ?thesis by (simp add: strip_ws_def)
qed

lemma underscores_ok_plain:
  "CHR ''_'' \<notin> set s \<Longrightarrow> prev \<noteq> CHR ''_'' \<Longrightarrow> underscores_ok prev s"
  by (induction s arbitrary: prev) auto

lemma digit_facts:
  assumes "is_digit c"
  shows "\<not> is_space c" "c \<noteq> CHR ''_''" "c \<noteq> CHR ''-''" "c \<noteq> CHR ''+''" "c \<noteq> CHR ''.''"
    "c \<noteq> CHR ''e''" "c \<noteq> CHR ''E''" "to_lower c = c" "c \<noteq> CHR ''i''" "c \<noteq> CHR ''n''"
  using assms by (auto simp: is_digit_def is_space_def to_lower_def)

lemma parse_exponent_shape:
  assumes "sg = [] \<or> sg = ''-'' \<or> sg = ''+''" "ds \<noteq> []" "list_all is_digit ds"
  shows "\<exists>x. parse_exponent (CHR ''e'' # sg @ ds) = Some x"
proof -
  from assms(2) obtain c cs where ds: "ds = c # cs" by (cases ds) auto
  with assms(3) have c: "is_digit c" by simp
  from assms(1) show ?thesis
  proof (elim disjE)
    assume "sg = []"
    with ds assms(3) digit_facts(3,4) [OF c] show ?thesis
      by (simp add: parse_exponent_def)
  next
    assume "sg = ''-''"
    with assms(2,3) show ?thesis by (simp add: parse_exponent_def)
  next
    assume "sg = ''+''"
    with assms(2,3) show ?thesis by (simp add: parse_exponent_def)
  qed
qed

lemma exponent_part_parses:
  assumes "exponent_part ex"
  shows "\<exists>x. parse_exponent ex = Some x"
proof (cases "ex = []")
  case True
  then show ?thesis by (simp add: parse_exponent_def)
next
  case False
  with assms obtain sg ds where "ex = CHR ''e'' # sg @ ds" "sg = [] \<or> sg = ''-'' \<or> sg = ''+''"
    "ds \<noteq> []" "list_all is_digit ds"
    unfolding exponent_part_def by blast
  then show ?thesis using parse_exponent_shape by blast
qed

lemma exponent_part_head:
  "exponent_part ex \<Longrightarrow> ex = [] \<or> (\<not> is_digit (hd ex) \<and> hd ex \<noteq> CHR ''.'')"
  by (auto simp: exponent_part_def is_digit_def)

lemma parse_number_shape:
  assumes ip: "list_all is_digit ip" "ip \<noteq> []"
    and fp: "frac = [] \<or> (\<exists>fp. frac = CHR ''.'' # fp \<and> list_all is_digit fp)"
    and ex: "exponent_part ex"
  shows "\<exists>r. parse_number (ip @ frac @ ex) = Some r"
proof -
  from exponent_part_parses [OF ex] obtain x where x: "parse_exponent ex = Some x" by blast
  from exponent_part_head [OF ex] have hd: "ex = [] \<or> \<not> is_digit (hd ex)"
    and nodot: "ex = [] \<or> hd ex \<noteq> CHR ''.''" by blast+
  from fp show ?thesis
  proof
    assume f: "frac = []"
    have tw: "takeWhile is_digit (ip @ ex) = ip" and dw: "dropWhile is_digit (ip @ ex) = ex"
      using span_digits [OF ip(1) hd] by blast+
    have "parse_number (ip @ ex) = Some (nat_of_digits (ip @ []), x - int (length ([]::string)))"
      unfolding parse_number_def tw dw Let_def using x ip(2) nodot
      by (cases ex) simp_all
    with f show ?thesis by simp
  next
    assume "\<exists>fp. frac = CHR ''.'' # fp \<and> list_all is_digit fp"
    then obtain fp where f: "frac = CHR ''.'' # fp" and d: "list_all is_digit fp" by blast
    have nd: "CHR ''.'' # fp @ ex = [] \<or> \<not> is_digit (hd (CHR ''.'' # fp @ ex))"
      by (simp add: is_digit_def)
    have tw: "takeWhile is_digit (ip @ CHR ''.'' # fp @ ex) = ip"
      and dw: "dropWhile is_digit (ip @ CHR ''.'' # fp @ ex) = CHR ''.'' # fp @ ex"
      using span_digits [OF ip(1) nd] by blast+
    have tw2: "takeWhile is_digit (fp @ ex) = fp" and dw2: "dropWhile is_digit (fp @ ex) = ex"
      using span_digits [OF d hd] by blast+
    have "parse_number (ip @ CHR ''.'' # fp @ ex) = Some (nat_of_digits (ip @ fp), x - int (length fp))"
      unfolding parse_number_def tw dw Let_def list.case if_P [OF refl] tw2 dw2 using x ip(2)
      by simp
    with f show ?thesis by simp
  qed
qed

lemma plain_char:
  assumes "is_digit x \<or> x = CHR ''.'' \<or> x = CHR ''e'' \<or> x = CHR ''-'' \<or> x = CHR ''+''"
  shows "\<not> is_space x" "x \<noteq> CHR ''_''"
  using assms by (auto simp: is_digit_def is_space_def)

lemma filter_absent: "x \<notin> set s \<Longrightarrow> filter (\<lambda>c. c \<noteq> x) s = s"
  by (induction s) auto

lemma py_float_shape:
  assumes sg: "sg = [] \<or> sg = ''-''"
    and ip: "list_all is_digit ip" "ip \<noteq> []"
    and fp: "frac = [] \<or> (\<exists>fp. frac = CHR ''.'' # fp \<and> list_all is_digit fp)"
    and ex: "exponent_part ex"
  shows "\<exists>x. py_float (sg @ ip @ frac @ ex) = Inr x"
proof -
  let ?body = "ip @ frac @ ex"
  let ?s = "sg @ ?body"
  from ip obtain c cs where c: "ip = c # cs" "is_digit c" by (cases ip) auto
  have plain: "\<forall>x\<in>set ?s. is_digit x \<or> x = CHR ''.'' \<or> x = CHR ''e'' \<or> x = CHR ''-'' \<or> x = CHR ''+''"
    using sg ip(1) fp ex by (auto simp: list_all_iff exponent_part_def)
  have nospace: "\<forall>x\<in>set ?s. \<not> is_space x"
    using plain plain_char(1) by blast
  have nounder: "CHR ''_'' \<notin> set ?s"
    using plain plain_char(2) by blast
  have ne: "?s \<noteq> []" using ip(2) by simp
  have "hd ?s \<in> set ?s" "last ?s \<in> set ?s" using ne by (simp_all del: set_append)
  with nospace have "\<not> is_space (hd ?s)" "\<not> is_space (last ?s)" by blast+
  with ne have strip: "strip_ws ?s = ?s" by (intro strip_ws_id)
  have uok: "underscores_ok (CHR 0x00) ?s" by (rule underscores_ok_plain [OF nounder]) simp
  have filt: "filter (\<lambda>c. c \<noteq> CHR ''_'') ?s = ?s" by (rule filter_absent [OF nounder])
  have body: "(case ?s of [] \<Rightarrow> [] | c # r \<Rightarrow> if c = CHR ''-'' \<or> c = CHR ''+'' then r else ?s) = ?body"
    using sg c digit_facts(3,4) [OF c(2)] by auto
  have lw: "map to_lower ?body \<noteq> ''inf''" "map to_lower ?body \<noteq> ''infinity''"
    "map to_lower ?body \<noteq> ''nan''"
    using c digit_facts(8,9,10) [OF c(2)] by auto
  from parse_number_shape [OF ip fp ex] obtain r where r: "parse_number ?body = Some r" by blast
  obtain d k where dk: "r = (d, k)" by (cases r)
  show ?thesis
    unfolding py_float_def strip Let_def filt body using uok lw r dk by simp
qed

lemma is_number_text_float:
  assumes "is_number_text v"
  shows "\<exists>x. py_float v = Inr x"
proof -
  let ?ip = "takeWhile is_digit v" and ?r = "dropWhile is_digit v"
  have v: "v = [] @ ?ip @ ?r @ []" by simp
  have ip: "list_all is_digit ?ip" "?ip \<noteq> []"
    using assms by (auto simp: is_number_text_def list_all_iff dest: set_takeWhileD)
  have fp: "?r = [] \<or> (\<exists>fp. ?r = CHR ''.'' # fp \<and> list_all is_digit fp)"
    using assms by (auto simp: is_number_text_def split: list.splits)
  have "\<exists>x. py_float ([] @ ?ip @ ?r @ []) = Inr x"
    by (rule py_float_shape [OF _ ip fp]) (simp_all add: exponent_part_def)
  with v show ?thesis by simp
qed


section \<open>\<open>float\<close> accepts every \<open>str\<close> of a float\<close>

lemma digit_char_digit: "d < 10 \<Longrightarrow> is_digit (digit_char d)"
proof -
  assume "d < 10"
  then have "d \<in> {0, 1, 2, 3, 4, 5, 6, 7, 8, 9}" by auto
  then show ?thesis by (auto simp: is_digit_def digit_char_def)
qed

lemma digits_of_digits: "list_all is_digit (digits_of n) \<and> digits_of n \<noteq> []"
proof (induction n rule: digits_of.induct)
  case (1 n)
  show ?case
  proof (cases "n < 10")
    case True
    then show ?thesis by (subst (1 2) digits_of.simps) (simp add: digit_char_digit)
  next
    case False
    with 1 have "list_all is_digit (digits_of (n div 10))" by simp
    moreover have "is_digit (digit_char (n mod 10))" by (rule digit_char_digit) simp
    ultimately show ?thesis using False by (subst (1 2) digits_of.simps) simp
  qed
qed

lemma exponent_text_part: "exponent_part (CHR ''e'' # exponent_text x)"
proof -
  let ?ds = "if nat \<bar>x\<bar> < 10 then CHR ''0'' # digits_of (nat \<bar>x\<bar>) else digits_of (nat \<bar>x\<bar>)"
  let ?sg = "if x < 0 then ''-'' else ''+''"
  have "list_all is_digit ?ds" "?ds \<noteq> []"
    using digits_of_digits [of "nat \<bar>x\<bar>"] by (auto simp: is_digit_def)
  moreover have "?sg = [] \<or> ?sg = ''-'' \<or> ?sg = ''+''" by simp
  moreover have "CHR ''e'' # exponent_text x = CHR ''e'' # ?sg @ ?ds"
    by (simp add: exponent_text_def)
  ultimately show ?thesis unfolding exponent_part_def by blast
qed

lemma number_shapeI:
  assumes "s = ip @ frac @ ex" "list_all is_digit ip" "ip \<noteq> []"
    "frac = [] \<or> (\<exists>fp. frac = CHR ''.'' # fp \<and> list_all is_digit fp)" "exponent_part ex"
  shows "number_shape s"
  unfolding number_shape_def using assms by blast

lemma format_repr_shape: "number_shape (format_repr d k)"
proof -
  define ds where "ds = digits_of d"
  define decpt where "decpt = int (length ds) + k"
  have ds: "list_all is_digit ds" "ds \<noteq> []" using digits_of_digits [of d] by (simp_all add: ds_def)
  have tk: "list_all is_digit (take n ds)" "list_all is_digit (drop n ds)" for n
    using ds(1) by (auto simp: list_all_iff dest: in_set_takeD in_set_dropD)
  have zeros: "list_all is_digit (replicate n (CHR ''0''))" for n
    by (simp add: list_all_iff is_digit_def)
  have none: "exponent_part []" by (simp add: exponent_part_def)
  consider (A) "decpt \<le> - 4 \<or> 16 < decpt"
    | (B) "\<not> (decpt \<le> - 4 \<or> 16 < decpt)" "decpt \<le> 0"
    | (C) "\<not> (decpt \<le> - 4 \<or> 16 < decpt)" "\<not> decpt \<le> 0" "int (length ds) \<le> decpt"
    | (D) "\<not> (decpt \<le> - 4 \<or> 16 < decpt)" "\<not> decpt \<le> 0" "\<not> int (length ds) \<le> decpt"
    by blast
  then show ?thesis
  proof cases
    case A
    then have "format_repr d k =
        take 1 ds @ (if drop 1 ds = [] then [] else CHR ''.'' # drop 1 ds) @
        (CHR ''e'' # exponent_text (decpt - 1))"
      by (simp add: format_repr_def Let_def ds_def decpt_def)
    moreover have "take 1 ds \<noteq> []" using ds(2) by simp
    ultimately show ?thesis
      by (rule number_shapeI [OF _ tk(1) _ _ exponent_text_part]) (simp_all add: tk(2))
  next
    case B
    then have "format_repr d k = ''0'' @ (CHR ''.'' # replicate (nat (- decpt)) (CHR ''0'') @ ds) @ []"
      by (simp add: format_repr_def Let_def ds_def decpt_def)
    then show ?thesis
      by (rule number_shapeI [OF _ _ _ _ none]) (simp_all add: is_digit_def ds(1) zeros)
  next
    case C
    then have "format_repr d k = (ds @ replicate (nat (decpt - int (length ds))) (CHR ''0'')) @ ''.0'' @ []"
      by (simp add: format_repr_def Let_def ds_def decpt_def)
    then show ?thesis
      by (rule number_shapeI [OF _ _ _ _ none]) (simp_all add: is_digit_def ds zeros)
  next
    case D
    then have "format_repr d k = take (nat decpt) ds @ (CHR ''.'' # drop (nat decpt) ds) @ []"
      by (simp add: format_repr_def Let_def ds_def decpt_def)
    moreover have "take (nat decpt) ds \<noteq> []" using ds(2) D(2) by simp
    ultimately show ?thesis
      by (rule number_shapeI [OF _ tk(1) _ _ none]) (simp_all add: tk(2))
  qed
qed

lemma number_shape_float:
  assumes "number_shape s" "sg = [] \<or> sg = ''-''"
  shows "\<exists>x. py_float (sg @ s) = Inr x"
  using assms py_float_shape unfolding number_shape_def by blast

lemma py_float_nan: "py_float ''nan'' = Inr PyNaN"
  by code_simp

lemma py_float_inf: "py_float ''inf'' = Inr (PyInf False)" "py_float ''-inf'' = Inr (PyInf True)"
  by code_simp+

lemma zero_shape: "number_shape ''0.0''"
  by (rule number_shapeI [of _ "''0''" "''.0''" "[]"]) (simp_all add: is_digit_def exponent_part_def)

lemma py_float_py_str: "\<exists>y. py_float (py_str x) = Inr y"
proof (cases x)
  case (PyFin s m e)
  obtain d k where dk: "repr_digits m e = (d, k)" by (cases "repr_digits m e")
  have "number_shape (if m = 0 then ''0.0'' else format_repr d k)"
    using zero_shape format_repr_shape by simp
  then have "\<exists>y. py_float ((if s then ''-'' else []) @ (if m = 0 then ''0.0'' else format_repr d k)) = Inr y"
    by (rule number_shape_float) simp
  with PyFin dk show ?thesis by (cases s; cases "m = 0") (simp_all add: py_str_def)
next
  case (PyInf s)
  then show ?thesis using py_float_inf by (cases s) (simp_all add: py_str_def)
next
  case PyNaN
  then show ?thesis using py_float_nan by (simp add: py_str_def)
qed

lemma py_float_zero_text: "\<exists>y. py_float ''0.0'' = Inr y"
  using number_shape_float [OF zero_shape, of "[]"] by simp

section \<open>The dictionaries that reach the inner loop\<close>

lemma not_isl_iff: "\<not> isl r \<longleftrightarrow> (\<exists>x. r = Inr x)"
  by (cases r) auto

lemma set_update_subset: "set (AList.update k v d) \<subseteq> insert (k, v) (set d)"
  by (induction d) auto

lemma float_dict_setitem:
  assumes "float_dict d" "\<not> isl (py_float v)"
  shows "float_dict (setitem k v d)"
  using assms set_update_subset [of k v d]
  unfolding float_dict_def setitem_def by (auto simp: distinct_update)

lemma set_delete_subset: "set (AList.delete k d) \<subseteq> set d"
  by (induction d) auto

lemma float_dict_delete:
  assumes "float_dict d"
  shows "float_dict (AList.delete k d)"
  using assms set_delete_subset [of k d]
  unfolding float_dict_def by (auto simp: distinct_delete)

lemma float_dict_delitem: "delitem k a = Inr b \<Longrightarrow> float_dict a \<Longrightarrow> float_dict b"
  by (auto dest!: delitem_Inr intro: float_dict_delete)

lemma py_str_floatable: "\<not> isl (py_float (py_str x))"
  using py_float_py_str [of x] by (simp add: not_isl_iff)

lemma zero_text_floatable: "\<not> isl (py_float ''0.0'')"
  using py_float_zero_text by (simp add: not_isl_iff)

lemma float_dict_usage_step: "usage_step a = Inr b \<Longrightarrow> float_dict a \<Longrightarrow> float_dict b"
  by (auto simp: usage_step_def float_dict_setitem py_str_floatable dest!: bind_r_eq_Inr)

lemma float_dict_hit_ratio_step:
  "hit_ratio_step r h m a = Inr b \<Longrightarrow> float_dict a \<Longrightarrow> float_dict b"
  by (auto simp: hit_ratio_step_def float_dict_setitem py_str_floatable zero_text_floatable
      dest!: bind_r_eq_Inr split: sum.splits if_splits)

lemma float_dict_run_steps:
  assumes "\<forall>f \<in> set fs. \<forall>a b. f a = Inr b \<longrightarrow> float_dict a \<longrightarrow> float_dict b"
    and "float_dict d"
  shows "float_dict (snd (run_steps fs d))"
  using assms
proof (induction fs arbitrary: d)
  case Nil
  then show ?case by simp
next
  case (Cons f fs)
  show ?case
  proof (cases "f d")
    case (Inl e)
    with Cons.prems show ?thesis by simp
  next
    case (Inr d')
    with Cons.prems have "float_dict d'" by simp
    with Cons.IH [of d'] Cons.prems(1) Inr show ?thesis by simp
  qed
qed

lemma float_dict_wrap_stats: "float_dict d \<Longrightarrow> float_dict (wrap_stats d)"
  unfolding wrap_stats_def wrap_stats_try_def
  by (rule float_dict_run_steps)
     (auto simp: wrap_stats_steps_def
        intro: float_dict_delitem float_dict_usage_step float_dict_hit_ratio_step)

lemma float_dict_stats: "float_dict (py_dict (map as_pair (findall stat_regex resp)))"
proof -
  have "\<not> isl (py_float v)" if "(k, v) \<in> set (py_dict (stat_lines resp))" for k v
  proof -
    from that py_dict_subset have "(k, v) \<in> set (stat_lines resp)" by blast
    with stat_lines_shape have "is_number_text v" by blast
    then show ?thesis using is_number_text_float by (simp add: not_isl_iff)
  qed
  then show ?thesis
    unfolding float_dict_def findall_stat_lines using py_dict_distinct by auto
qed

lemma float_dict_poll:
  assumes "poll pr p = Inr st"
  shows "float_dict st"
proof -
  from assms obtain resp conn where "mc_command pr ''stats'' (MemcachedStats p) = (Inr resp, conn)"
    and "st = wrap_stats (py_dict (map as_pair (findall stat_regex resp)))"
    by (auto simp: poll_def mc_stats_def Let_def split: prod.splits sum.splits)
  then show ?thesis using float_dict_wrap_stats [OF float_dict_stats] by simp
qed


lemma float_item_member:
  assumes "float_dict st" "(k, v) \<in> set st"
  shows "float_item st k = py_float v"
proof -
  from assms have "map_of st k = Some v" by (simp add: float_dict_def)
  then show ?thesis by (simp add: float_item_def getitem_Some)
qed

lemma points_of_float_dict:
  assumes "float_dict st" "set ps \<subseteq> set st"
  shows "\<exists>pts. points_of env p st ps = Inr pts \<and>
           map (\<lambda>pt. Inr (metric_value pt)) pts = map (\<lambda>(k, v). py_float v) ps \<and>
           map metric pts = map (\<lambda>(k, v). ''mc.'' @ k @ (if k \<in> set gauges then [] else ''_cps'')) ps \<and>
           map counterType pts = map (\<lambda>(k, v). if k \<in> set gauges then ''GAUGE'' else ''COUNTER'') ps \<and>
           (\<forall>pt \<in> set pts. endpoint pt = env_hostname env \<and> timestamp pt = env_now env \<and>
              step pt = 60 \<and> tags pt = ''port='' @ str_int (int p))"
  using assms(2)
proof (induction ps)
  case Nil
  then show ?case by simp
next
  case (Cons kv ps)
  obtain k v where kv: "kv = (k, v)" by (cases kv)
  with Cons.prems have mem: "(k, v) \<in> set st" and sub: "set ps \<subseteq> set st" by auto
  from assms(1) mem have "\<not> isl (py_float v)" by (auto simp: float_dict_def)
  then obtain x where x: "py_float v = Inr x" by (auto simp: not_isl_iff)
  from Cons.IH [OF sub] obtain pts where pts: "points_of env p st ps = Inr pts"
    and rest: "map (\<lambda>pt. Inr (metric_value pt)) pts = map (\<lambda>(k, v). py_float v) ps"
      "map metric pts = map (\<lambda>(k, v). ''mc.'' @ k @ (if k \<in> set gauges then [] else ''_cps'')) ps"
      "map counterType pts = map (\<lambda>(k, v). if k \<in> set gauges then ''GAUGE'' else ''COUNTER'') ps"
      "\<forall>pt \<in> set pts. endpoint pt = env_hostname env \<and> timestamp pt = env_now env \<and>
              step pt = 60 \<and> tags pt = ''port='' @ str_int (int p)"
    by blast
  have "points_of env p st (kv # ps) = Inr (make_point env p k x # pts)"
    using kv pts x float_item_member [OF assms(1) mem] by simp
  moreover have "metric_value (make_point env p k x) = x"
    "metric (make_point env p k x) = ''mc.'' @ k @ (if k \<in> set gauges then [] else ''_cps'')"
    "counterType (make_point env p k x) = (if k \<in> set gauges then ''GAUGE'' else ''COUNTER'')"
    "endpoint (make_point env p k x) = env_hostname env"
    "timestamp (make_point env p k x) = env_now env"
    "step (make_point env p k x) = 60"
    "tags (make_point env p k x) = ''port='' @ str_int (int p)"
    by (simp_all add: make_point_def)
  ultimately show ?case using rest kv x by simp
qed




section \<open>The claims about the normalizer\<close>

lemma hit_ratio_step_missing: "float_item s h = Inl e \<Longrightarrow> hit_ratio_step r h m s = Inl e"
  by (simp add: hit_ratio_step_def)

lemma wrap_stats_try_fst_snd: "wrap_stats_try s = (fst (wrap_stats_try s), wrap_stats s)"
  by (simp add: wrap_stats_def)

lemma wrap_stats_unchanged_iff: "wrap_stats s = s \<longleftrightarrow> map_of s ''pid'' = None"
proof
  assume "wrap_stats s = s"
  then show "map_of s ''pid'' = None" using wrap_stats_drops_pid [of s] by (cases "map_of s ''pid''") auto
next
  assume "map_of s ''pid'' = None"
  then show "wrap_stats s = s" by (simp add: wrap_stats_def wrap_stats_try_no_pid)
qed

lemma example_floats:
  "float_item example_stats ''bytes'' = Inr (PyFin False (50 * 2 ^ 47) (- 47))"
  "float_item example_stats ''limit_maxbytes'' = Inr (PyFin False (100 * 2 ^ 46) (- 46))"
  "float_item example_stats ''get_hits'' = Inr (PyFin False (3 * 2 ^ 51) (- 51))"
  "float_item example_stats ''get_misses'' = Inr (PyFin False (2 ^ 52) (- 52))"
  "float_item example_stats ''incr_hits'' = Inr (PyFin False 0 (- 1074))"
  "float_item example_stats ''incr_misses'' = Inr (PyFin False 0 (- 1074))"
  "float_item example_stats ''decr_hits'' = Inr (PyFin False (3 * 2 ^ 51) (- 51))"
  "float_item example_stats ''decr_misses'' = Inr (PyFin False (2 ^ 52) (- 52))"
  "float_item example_stats ''delete_hits'' = Inr (PyFin False 0 (- 1074))"
  "float_item example_stats ''delete_misses'' = Inr (PyFin False 0 (- 1074))"
  using py_float_50 py_float_100 py_float_3 py_float_1 py_float_0
  by (simp_all add: float_item_def getitem_def example_stats_def)

lemma example_ids: "map_of example_stats ''pid'' \<noteq> None" "map_of example_stats ''time'' \<noteq> None"
  by (simp_all add: example_stats_def)

lemma not_zero_100: "\<not> is_zero (PyFin False (100 * 2 ^ 46) (- 46))"
  by (simp add: is_zero_def)

lemma example_complete: "fst (wrap_stats_try example_stats) = None"
  using wrap_stats_try_complete [OF example_ids example_floats(1,2) not_zero_100 example_floats(3-10)]
  by simp

text \<open>
  C1, as amended.  A dictionary that lacks one of the ten source keys never gets through the
  block: \<open>wrap_stats\<close> raises nothing and returns the dictionary as the statements before
  the failing one left it.  That is the input itself exactly when \<open>pid\<close> is absent (the very
  first \<open>del\<close> fails, and the \<open>KeyError\<close> is logged); with \<open>pid\<close> alone deleted when
  \<open>time\<close> is absent (logged too); with \<open>pid\<close> and \<open>time\<close> deleted when \<open>bytes\<close> or
  \<open>limit_maxbytes\<close> is absent; and further on also with the derived fields computed so far.
\<close>

theorem wrap_stats_missing_key:
  assumes "k \<in> set required_keys" and "map_of stats k = None"
  shows "(\<exists>e n. n < length wrap_stats_steps \<and>
            wrap_stats_try stats = (Some e, wrap_stats stats) \<and>
            run_steps (take n wrap_stats_steps) stats = (None, wrap_stats stats) \<and>
            (wrap_stats_steps ! n) (wrap_stats stats) = Inl e) \<and>
         (wrap_stats stats = stats \<longleftrightarrow> map_of stats ''pid'' = None) \<and>
         (map_of stats ''pid'' = None \<longrightarrow> wrap_stats_logged stats) \<and>
         (map_of stats ''pid'' \<noteq> None \<and> map_of stats ''time'' = None \<longrightarrow>
            wrap_stats stats = AList.delete ''pid'' stats \<and> wrap_stats_logged stats) \<and>
         (map_of stats ''pid'' \<noteq> None \<and> map_of stats ''time'' \<noteq> None \<and>
          (map_of stats ''bytes'' = None \<or> map_of stats ''limit_maxbytes'' = None) \<longrightarrow>
            wrap_stats stats = AList.delete ''time'' (AList.delete ''pid'' stats))"
proof (intro conjI impI)
  from wrap_stats_try_missing [OF assms] obtain e where "fst (wrap_stats_try stats) = Some e"
    by blast
  then have t: "wrap_stats_try stats = (Some e, wrap_stats stats)"
    using wrap_stats_try_fst_snd [of stats] by simp
  then have "run_steps wrap_stats_steps stats = (Some e, wrap_stats stats)"
    by (simp add: wrap_stats_try_def)
  from run_steps_Some [OF this] t
  show "\<exists>e n. n < length wrap_stats_steps \<and>
            wrap_stats_try stats = (Some e, wrap_stats stats) \<and>
            run_steps (take n wrap_stats_steps) stats = (None, wrap_stats stats) \<and>
            (wrap_stats_steps ! n) (wrap_stats stats) = Inl e"
    by blast
next
  show "wrap_stats stats = stats \<longleftrightarrow> map_of stats ''pid'' = None"
    by (rule wrap_stats_unchanged_iff)
next
  assume "map_of stats ''pid'' = None"
  then show "wrap_stats_logged stats"
    by (simp add: wrap_stats_logged_def wrap_stats_try_no_pid)
next
  assume a: "map_of stats ''pid'' \<noteq> None \<and> map_of stats ''time'' = None"
  then show "wrap_stats stats = AList.delete ''pid'' stats"
    by (simp add: wrap_stats_def wrap_stats_try_no_time)
  from a show "wrap_stats_logged stats"
    by (simp add: wrap_stats_logged_def wrap_stats_try_no_time)
next
  assume a: "map_of stats ''pid'' \<noteq> None \<and> map_of stats ''time'' \<noteq> None \<and>
          (map_of stats ''bytes'' = None \<or> map_of stats ''limit_maxbytes'' = None)"
  let ?s2 = "AList.delete ''time'' (AList.delete ''pid'' stats)"
  from a have "map_of ?s2 ''bytes'' = None \<or> map_of ?s2 ''limit_maxbytes'' = None"
    by (simp add: map_of_delete)
  from usage_step_missing [OF this] obtain e where "usage_step ?s2 = Inl e" by blast
  with a show "wrap_stats stats = ?s2"
    by (simp add: wrap_stats_def wrap_stats_try_no_usage)
qed

theorem wrap_stats_missing_key_witness:
  "''get_hits'' \<in> set required_keys \<and> map_of partial_stats ''get_hits'' = None \<and>
   map_of partial_stats ''pid'' = Some ''4242'' \<and> wrap_stats partial_stats \<noteq> partial_stats \<and>
   (\<exists>e n. n < length wrap_stats_steps \<and>
      wrap_stats_try partial_stats = (Some e, wrap_stats partial_stats) \<and>
      run_steps (take n wrap_stats_steps) partial_stats = (None, wrap_stats partial_stats) \<and>
      (wrap_stats_steps ! n) (wrap_stats partial_stats) = Inl e)"
proof -
  have k: "''get_hits'' \<in> set required_keys" by (simp add: required_keys_def)
  have m: "map_of partial_stats ''get_hits'' = None" by (simp add: partial_stats_def)
  have p: "map_of partial_stats ''pid'' = Some ''4242''" by (simp add: partial_stats_def)
  from wrap_stats_missing_key [OF k m] k m p show ?thesis by simp
qed

lemma partial_floats:
  "float_item partial_stats ''bytes'' = Inr (PyFin False (50 * 2 ^ 47) (- 47))"
  "float_item partial_stats ''limit_maxbytes'' = Inr (PyFin False (100 * 2 ^ 46) (- 46))"
  using py_float_50 py_float_100
  by (simp_all add: float_item_def getitem_def partial_stats_def)

theorem wrap_stats_missing_key_counterexample:
  "map_of partial_stats ''get_hits'' = None \<and>
   wrap_stats partial_stats =
     [(''bytes'', ''50''), (''limit_maxbytes'', ''100''), (''usage'', ''50.0'')] \<and>
   wrap_stats partial_stats \<noteq> partial_stats"
proof -
  let ?s3 = "setitem ''usage''
     (py_str (float_quot (float_mul (float_of_nat 100) (PyFin False (50 * 2 ^ 47) (- 47)))
        (PyFin False (100 * 2 ^ 46) (- 46))))
     (AList.delete ''time'' (AList.delete ''pid'' partial_stats))"
  have p: "run_steps (take 3 wrap_stats_steps) partial_stats = (None, ?s3)"
    by (rule wrap_stats_prefix3 [OF _ _ partial_floats not_zero_100])
       (simp_all add: partial_stats_def)
  have "float_item ?s3 ''get_hits'' = Inl KeyError"
    by (rule float_item_None) (simp add: map_of_setitem map_of_delete partial_stats_def)
  then have "hit_ratio_step ''get_hit_ratio'' ''get_hits'' ''get_misses'' ?s3 = Inl KeyError"
    by (rule hit_ratio_step_missing)
  then have "wrap_stats partial_stats = ?s3"
    using wrap_stats_try_split [OF p] by (simp add: wrap_stats_def wrap_stats_steps_def)
  also have "?s3 = [(''bytes'', ''50''), (''limit_maxbytes'', ''100''), (''usage'', ''50.0'')]"
    unfolding usage_50_100 by (simp add: partial_stats_def setitem_def)
  finally show ?thesis by (simp add: partial_stats_def)
qed

text \<open>
  C2, as amended.  When \<open>pid\<close> and \<open>time\<close> are both present, the returned dictionary has
  neither.  Deleting an absent key is an error, not a no-op: without \<open>pid\<close> the dictionary
  comes back untouched (so it still has \<open>time\<close> if it had it), and with \<open>pid\<close> but without
  \<open>time\<close> only \<open>pid\<close> is removed; both times the \<open>KeyError\<close> is logged.  A run that ends
  without an exception leaves \<open>usage\<close> and the four ratios in the dictionary, \<open>usage\<close> being
  \<open>str(100 * bytes / limit_maxbytes)\<close> and each ratio \<open>str(100 * hits / (hits + misses))\<close>,
  or \<open>'0.0'\<close> when \<open>hits + misses\<close> is zero.
\<close>

theorem wrap_stats_invariant:
  "(map_of stats ''pid'' \<noteq> None \<and> map_of stats ''time'' \<noteq> None \<longrightarrow>
      map_of (wrap_stats stats) ''pid'' = None \<and> map_of (wrap_stats stats) ''time'' = None) \<and>
   (map_of stats ''pid'' = None \<longrightarrow> wrap_stats stats = stats \<and> wrap_stats_logged stats) \<and>
   (map_of stats ''pid'' \<noteq> None \<and> map_of stats ''time'' = None \<longrightarrow>
      wrap_stats stats = AList.delete ''pid'' stats \<and> wrap_stats_logged stats) \<and>
   (fst (wrap_stats_try stats) = None \<longrightarrow>
      (\<exists>fb fl. float_item stats ''bytes'' = Inr fb \<and> float_item stats ''limit_maxbytes'' = Inr fl \<and>
         \<not> is_zero fl \<and>
         map_of (wrap_stats stats) ''usage'' =
           Some (py_str (float_quot (float_mul (float_of_nat 100) fb) fl))) \<and>
      (\<forall>(r, h, m) \<in> set hit_pairs. \<exists>fh fm.
         float_item stats h = Inr fh \<and> float_item stats m = Inr fm \<and>
         map_of (wrap_stats stats) r = Some (hit_ratio fh fm)))"
proof (intro conjI impI)
  assume a: "map_of stats ''pid'' \<noteq> None \<and> map_of stats ''time'' \<noteq> None"
  then show "map_of (wrap_stats stats) ''pid'' = None" by (simp add: wrap_stats_drops_pid)
  from a show "map_of (wrap_stats stats) ''time'' = None" by (simp add: wrap_stats_drops_time)
next
  assume a: "map_of stats ''pid'' = None"
  then show "wrap_stats stats = stats" by (simp add: wrap_stats_def wrap_stats_try_no_pid)
  from a show "wrap_stats_logged stats" by (simp add: wrap_stats_logged_def wrap_stats_try_no_pid)
next
  assume a: "map_of stats ''pid'' \<noteq> None \<and> map_of stats ''time'' = None"
  then show "wrap_stats stats = AList.delete ''pid'' stats"
    by (simp add: wrap_stats_def wrap_stats_try_no_time)
  from a show "wrap_stats_logged stats"
    by (simp add: wrap_stats_logged_def wrap_stats_try_no_time)
next
  assume "fst (wrap_stats_try stats) = None"
  then have t: "wrap_stats_try stats = (None, wrap_stats stats)"
    using wrap_stats_try_fst_snd [of stats] by simp
  from wrap_stats_try_None [OF t] obtain fb fl h1 m1 h2 m2 h3 m3 h4 m4 where
    f: "float_item stats ''bytes'' = Inr fb" "float_item stats ''limit_maxbytes'' = Inr fl"
       "\<not> is_zero fl"
       "float_item stats ''get_hits'' = Inr h1" "float_item stats ''get_misses'' = Inr m1"
       "float_item stats ''incr_hits'' = Inr h2" "float_item stats ''incr_misses'' = Inr m2"
       "float_item stats ''decr_hits'' = Inr h3" "float_item stats ''decr_misses'' = Inr m3"
       "float_item stats ''delete_hits'' = Inr h4" "float_item stats ''delete_misses'' = Inr m4"
    and w: "wrap_stats stats =
       setitem ''delete_hit_ratio'' (hit_ratio h4 m4)
        (setitem ''decr_hit_ratio'' (hit_ratio h3 m3)
          (setitem ''incr_hit_ratio'' (hit_ratio h2 m2)
            (setitem ''get_hit_ratio'' (hit_ratio h1 m1)
              (setitem ''usage'' (py_str (float_quot (float_mul (float_of_nat 100) fb) fl))
                (AList.delete ''time'' (AList.delete ''pid'' stats))))))"
    by blast
  have "map_of (wrap_stats stats) ''usage'' =
          Some (py_str (float_quot (float_mul (float_of_nat 100) fb) fl))"
    unfolding w by (simp add: map_of_setitem)
  with f(1-3) show "\<exists>fb fl. float_item stats ''bytes'' = Inr fb \<and>
         float_item stats ''limit_maxbytes'' = Inr fl \<and> \<not> is_zero fl \<and>
         map_of (wrap_stats stats) ''usage'' =
           Some (py_str (float_quot (float_mul (float_of_nat 100) fb) fl))"
    by blast
  have "map_of (wrap_stats stats) ''get_hit_ratio'' = Some (hit_ratio h1 m1)"
       "map_of (wrap_stats stats) ''incr_hit_ratio'' = Some (hit_ratio h2 m2)"
       "map_of (wrap_stats stats) ''decr_hit_ratio'' = Some (hit_ratio h3 m3)"
       "map_of (wrap_stats stats) ''delete_hit_ratio'' = Some (hit_ratio h4 m4)"
    unfolding w by (simp_all add: map_of_setitem)
  with f(4-11) show "\<forall>(r, h, m) \<in> set hit_pairs. \<exists>fh fm.
         float_item stats h = Inr fh \<and> float_item stats m = Inr fm \<and>
         map_of (wrap_stats stats) r = Some (hit_ratio fh fm)"
    by (simp add: hit_pairs_def)
qed

theorem wrap_stats_invariant_witness:
  "map_of example_stats ''pid'' \<noteq> None \<and> map_of example_stats ''time'' \<noteq> None \<and>
   fst (wrap_stats_try example_stats) = None \<and>
   map_of (wrap_stats example_stats) ''pid'' = None \<and>
   map_of (wrap_stats example_stats) ''time'' = None \<and>
   map_of (wrap_stats example_stats) ''usage'' = Some ''50.0'' \<and>
   map_of (wrap_stats example_stats) ''get_hit_ratio'' = Some ''75.0'' \<and>
   map_of (wrap_stats example_stats) ''incr_hit_ratio'' = Some ''0.0'' \<and>
   map_of (wrap_stats example_stats) ''decr_hit_ratio'' = Some ''75.0'' \<and>
   map_of (wrap_stats example_stats) ''delete_hit_ratio'' = Some ''0.0''"
proof -
  have z: "hit_ratio (PyFin False 0 (- 1074)) (PyFin False 0 (- 1074)) = ''0.0''"
    by (rule hit_ratio_zero) (simp_all add: is_zero_def)
  have u: "py_str (float_quot (float_mul (float_of_nat 100)
              (PyFin False 7036874417766400 (- 47))) (PyFin False 7036874417766400 (- 46))) = ''50.0''"
    using usage_50_100 by simp
  have r: "hit_ratio (PyFin False 6755399441055744 (- 51)) (PyFin False 4503599627370496 (- 52))
             = ''75.0''"
    using hit_ratio_3_1 by simp
  from wrap_stats_invariant [of example_stats] example_ids example_complete
  show ?thesis
    by (simp add: hit_pairs_def example_floats u r z)
qed

theorem wrap_stats_invariant_counterexample:
  "map_of unidentified_stats ''pid'' = None \<and>
   map_of (wrap_stats unidentified_stats) ''time'' = Some ''1700000000''"
proof -
  have p: "map_of unidentified_stats ''pid'' = None" by (simp add: unidentified_stats_def)
  then have "wrap_stats unidentified_stats = unidentified_stats"
    by (simp add: wrap_stats_def wrap_stats_try_no_pid)
  with p show ?thesis by (simp add: unidentified_stats_def)
qed

text \<open>
  C3, as amended.  The statements before the one that computes \<open>usage\<close> are the two \<open>del\<close>s,
  so the claim needs \<open>pid\<close> and \<open>time\<close> to be present.  Then, whatever else the dictionary
  holds or lacks, \<open>bytes\<close> and \<open>limit_maxbytes\<close> that convert to floats \<open>b\<close> and a non-zero
  \<open>l\<close> give \<open>usage = str(100 * b / l)\<close>, and \<open>bytes = 50\<close>, \<open>limit_maxbytes = 100\<close> give
  \<open>usage = '50.0'\<close>.
\<close>

theorem wrap_stats_usage_value:
  assumes "map_of stats ''pid'' \<noteq> None" and "map_of stats ''time'' \<noteq> None"
  shows "(float_item stats ''bytes'' = Inr fb \<and> float_item stats ''limit_maxbytes'' = Inr fl \<and>
          \<not> is_zero fl \<longrightarrow>
            map_of (wrap_stats stats) ''usage'' =
              Some (py_str (float_quot (float_mul (float_of_nat 100) fb) fl))) \<and>
         (map_of stats ''bytes'' = Some ''50'' \<and> map_of stats ''limit_maxbytes'' = Some ''100'' \<longrightarrow>
            map_of (wrap_stats stats) ''usage'' = Some ''50.0'')"
proof (intro conjI impI)
  assume "float_item stats ''bytes'' = Inr fb \<and> float_item stats ''limit_maxbytes'' = Inr fl \<and>
          \<not> is_zero fl"
  then show "map_of (wrap_stats stats) ''usage'' =
              Some (py_str (float_quot (float_mul (float_of_nat 100) fb) fl))"
    using wrap_stats_usage [OF assms] by blast
next
  assume a: "map_of stats ''bytes'' = Some ''50'' \<and> map_of stats ''limit_maxbytes'' = Some ''100''"
  then have "float_item stats ''bytes'' = Inr (PyFin False (50 * 2 ^ 47) (- 47))"
    and "float_item stats ''limit_maxbytes'' = Inr (PyFin False (100 * 2 ^ 46) (- 46))"
    using py_float_50 py_float_100 by (simp_all add: float_item_Inr)
  from wrap_stats_usage [OF assms this not_zero_100]
  show "map_of (wrap_stats stats) ''usage'' = Some ''50.0''"
    unfolding usage_50_100 .
qed

theorem wrap_stats_usage_value_witness:
  "map_of partial_stats ''pid'' \<noteq> None \<and> map_of partial_stats ''time'' \<noteq> None \<and>
   map_of partial_stats ''bytes'' = Some ''50'' \<and>
   map_of partial_stats ''limit_maxbytes'' = Some ''100'' \<and>
   map_of (wrap_stats partial_stats) ''usage'' = Some ''50.0''"
proof -
  have h: "map_of partial_stats ''pid'' \<noteq> None" "map_of partial_stats ''time'' \<noteq> None"
    "map_of partial_stats ''bytes'' = Some ''50''"
    "map_of partial_stats ''limit_maxbytes'' = Some ''100''"
    by (simp_all add: partial_stats_def)
  from wrap_stats_usage_value [OF h(1,2)] h show ?thesis by simp
qed

theorem wrap_stats_usage_value_counterexample:
  "map_of unidentified_stats ''bytes'' = Some ''50'' \<and>
   map_of unidentified_stats ''limit_maxbytes'' = Some ''100'' \<and>
   map_of (wrap_stats unidentified_stats) ''usage'' = None"
proof -
  have "map_of unidentified_stats ''pid'' = None" by (simp add: unidentified_stats_def)
  then have "wrap_stats unidentified_stats = unidentified_stats"
    by (simp add: wrap_stats_def wrap_stats_try_no_pid)
  then show ?thesis by (simp add: unidentified_stats_def)
qed

text \<open>
  C4, as amended.  A ratio block runs only if every statement before it has completed.  When
  it runs, with hits and misses that convert to floats \<open>h\<close> and \<open>m\<close>, it stores
  \<open>str(100 * h / (h + m))\<close>, or \<open>'0.0'\<close> when \<open>h + m\<close> is zero; later statements do not touch
  the stored ratio, whether they fail or not.  Zero hits and zero misses give \<open>'0.0'\<close>, hits 3
  and misses 1 give \<open>'75.0'\<close>, and the block never ends in a \<open>ZeroDivisionError\<close>.
\<close>

theorem wrap_stats_hit_ratio:
  assumes "i < 4" and "hit_pairs ! i = (r, h, m)"
    and "run_steps (take (3 + i) wrap_stats_steps) stats = (None, s)"
  shows "(float_item stats h = Inr fh \<and> float_item stats m = Inr fm \<longrightarrow>
            map_of (wrap_stats stats) r = Some (hit_ratio fh fm)) \<and>
         (float_item stats h = Inr fh \<and> float_item stats m = Inr fm \<and> is_zero fh \<and> is_zero fm \<longrightarrow>
            map_of (wrap_stats stats) r = Some ''0.0'') \<and>
         (map_of stats h = Some ''3'' \<and> map_of stats m = Some ''1'' \<longrightarrow>
            map_of (wrap_stats stats) r = Some ''75.0'') \<and>
         wrap_stats_steps ! (3 + i) = hit_ratio_step r h m \<and>
         hit_ratio_step r h m s \<noteq> Inl ZeroDivisionError"
proof (intro conjI impI)
  assume "float_item stats h = Inr fh \<and> float_item stats m = Inr fm"
  then show "map_of (wrap_stats stats) r = Some (hit_ratio fh fm)"
    using wrap_stats_ratio [OF assms] by blast
next
  assume a: "float_item stats h = Inr fh \<and> float_item stats m = Inr fm \<and> is_zero fh \<and> is_zero fm"
  then have "map_of (wrap_stats stats) r = Some (hit_ratio fh fm)"
    using wrap_stats_ratio [OF assms] by blast
  with a show "map_of (wrap_stats stats) r = Some ''0.0''" by (simp add: hit_ratio_zero)
next
  assume a: "map_of stats h = Some ''3'' \<and> map_of stats m = Some ''1''"
  then have "float_item stats h = Inr (PyFin False (3 * 2 ^ 51) (- 51))"
    and "float_item stats m = Inr (PyFin False (2 ^ 52) (- 52))"
    using py_float_3 py_float_1 by (simp_all add: float_item_Inr)
  from wrap_stats_ratio [OF assms this]
  show "map_of (wrap_stats stats) r = Some ''75.0''"
    unfolding hit_ratio_3_1 .
next
  from assms(1,2) show "wrap_stats_steps ! (3 + i) = hit_ratio_step r h m"
    by (auto simp: hit_pairs_def wrap_stats_steps_def less_Suc_eq numeral_Bit0 numeral_Bit1)
next
  show "hit_ratio_step r h m s \<noteq> Inl ZeroDivisionError"
    by (rule hit_ratio_step_no_zero_division)
qed

theorem wrap_stats_hit_ratio_witness:
  "(0::nat) < 4 \<and> hit_pairs ! 0 = (''get_hit_ratio'', ''get_hits'', ''get_misses'') \<and>
   fst (run_steps (take (3 + 0) wrap_stats_steps) example_stats) = None \<and>
   map_of example_stats ''get_hits'' = Some ''3'' \<and>
   map_of example_stats ''get_misses'' = Some ''1'' \<and>
   map_of (wrap_stats example_stats) ''get_hit_ratio'' = Some ''75.0''"
proof -
  have p: "hit_pairs ! 0 = (''get_hit_ratio'', ''get_hits'', ''get_misses'')"
    by (simp add: hit_pairs_def)
  have q: "run_steps (take (3 + 0) wrap_stats_steps) example_stats =
     (None, setitem ''usage''
        (py_str (float_quot (float_mul (float_of_nat 100) (PyFin False (50 * 2 ^ 47) (- 47)))
          (PyFin False (100 * 2 ^ 46) (- 46))))
        (AList.delete ''time'' (AList.delete ''pid'' example_stats)))"
    using wrap_stats_prefix3 [OF example_ids example_floats(1,2) not_zero_100] by simp
  have v: "map_of example_stats ''get_hits'' = Some ''3''"
    "map_of example_stats ''get_misses'' = Some ''1''"
    by (simp_all add: example_stats_def)
  have "(0::nat) < 4" by simp
  from wrap_stats_hit_ratio [OF this p q] p q v show ?thesis by simp
qed

theorem wrap_stats_hit_ratio_counterexample:
  "map_of unidentified_stats ''get_hits'' = Some ''3'' \<and>
   map_of unidentified_stats ''get_misses'' = Some ''1'' \<and>
   map_of (wrap_stats unidentified_stats) ''get_hit_ratio'' = None"
proof -
  have "map_of unidentified_stats ''pid'' = None" by (simp add: unidentified_stats_def)
  then have "wrap_stats unidentified_stats = unidentified_stats"
    by (simp add: wrap_stats_def wrap_stats_try_no_pid)
  then show ?thesis by (simp add: unidentified_stats_def)
qed

section \<open>The claims about the client\<close>

lemma mc_write_connected:
  "mc_conn mc = Some sent \<Longrightarrow>
     mc_write pr cmd mc =
       (let line = (if ends_with_newline cmd then cmd else cmd @ [CHR 0x0A]) in
        case write_error pr (sent @ [line]) of
          Some e \<Rightarrow> (Inl e, mc)
        | None \<Rightarrow> (Inr (), mc\<lparr>mc_conn := Some (sent @ [line])\<rparr>))"
  by (simp add: mc_write_def mc_client_def Let_def)

lemma mc_write_fresh:
  "mc_conn mc = None \<Longrightarrow>
     mc_write pr cmd mc =
       (let line = (if ends_with_newline cmd then cmd else cmd @ [CHR 0x0A]) in
        case connect_error pr of
          Some e \<Rightarrow> (Inl e, mc)
        | None \<Rightarrow>
            (case write_error pr [line] of
               Some e \<Rightarrow> (Inl e, mc\<lparr>mc_conn := Some []\<rparr>)
             | None \<Rightarrow> (Inr (), mc\<lparr>mc_conn := Some [line]\<rparr>)))"
  by (simp add: mc_write_def mc_client_def Let_def split: option.splits)

lemma quit_line_eq: "(if ends_with_newline ''quit'' then ''quit'' else ''quit'' @ [CHR 0x0A]) = quit_line"
  by (simp add: ends_with_newline_def quit_line_def)

lemma poll_close_fails:
  assumes "mc_stats pr (MemcachedStats p) = (Inr raw, conn)" and "fst (mc_close pr conn) = Inl e"
  shows "poll pr p = Inl e"
  using assms by (cases "mc_close pr conn") (auto simp: poll_def Let_def split: sum.splits)

text \<open>
  C8, as amended.  \<open>close\<close> writes the line \<open>quit\<close>, opening the connection first if there
  is none, and reads nothing: what the server would answer has no influence.  It has no
  handler of its own, so an exception of the connection attempt or of the write is its
  result.  In the collector the call stands inside the \<open>try\<close> of the port: when it raises
  after a successful \<open>stats\<close>, the port is logged as failed, gives no metric point, and the
  loop goes on with the remaining ports.
\<close>

theorem mc_close_result:
  "mc_close pr mc =
     (case mc_conn mc of
        Some sent \<Rightarrow>
          (case write_error pr (sent @ [quit_line]) of
             Some e \<Rightarrow> (Inl e, mc)
           | None \<Rightarrow> (Inr (), mc\<lparr>mc_conn := Some (sent @ [quit_line])\<rparr>))
      | None \<Rightarrow>
          (case connect_error pr of
             Some e \<Rightarrow> (Inl e, mc)
           | None \<Rightarrow>
               (case write_error pr [quit_line] of
                  Some e \<Rightarrow> (Inl e, mc\<lparr>mc_conn := Some []\<rparr>)
                | None \<Rightarrow> (Inr (), mc\<lparr>mc_conn := Some [quit_line]\<rparr>)))) \<and>
   mc_close (pr\<lparr>read_until := answers\<rparr>) mc = mc_close pr mc \<and>
   (mc_stats pr (MemcachedStats p) = (Inr raw, conn) \<and> fst (mc_close pr conn) = Inl e \<longrightarrow>
      poll pr p = Inl e) \<and>
   (mc_stats (env_peers env p) (MemcachedStats p) = (Inr raw, conn) \<and>
    fst (mc_close (env_peers env p) conn) = Inl e \<longrightarrow>
      collect_ports env (p # ps) acc = collect_ports env ps (acc\<lparr>failed := failed acc @ [p]\<rparr>))"
proof (intro conjI impI)
  show "mc_close pr mc =
     (case mc_conn mc of
        Some sent \<Rightarrow>
          (case write_error pr (sent @ [quit_line]) of
             Some e \<Rightarrow> (Inl e, mc)
           | None \<Rightarrow> (Inr (), mc\<lparr>mc_conn := Some (sent @ [quit_line])\<rparr>))
      | None \<Rightarrow>
          (case connect_error pr of
             Some e \<Rightarrow> (Inl e, mc)
           | None \<Rightarrow>
               (case write_error pr [quit_line] of
                  Some e \<Rightarrow> (Inl e, mc\<lparr>mc_conn := Some []\<rparr>)
                | None \<Rightarrow> (Inr (), mc\<lparr>mc_conn := Some [quit_line]\<rparr>))))"
  proof (cases "mc_conn mc")
    case None
    then show ?thesis
      unfolding mc_close_def by (simp add: mc_write_fresh quit_line_eq)
  next
    case (Some sent)
    then show ?thesis
      unfolding mc_close_def by (simp add: mc_write_connected quit_line_eq)
  qed
next
  show "mc_close (pr\<lparr>read_until := answers\<rparr>) mc = mc_close pr mc"
    by (cases "mc_conn mc")
       (simp_all add: mc_close_def mc_write_fresh mc_write_connected Let_def split: option.splits)
next
  assume "mc_stats pr (MemcachedStats p) = (Inr raw, conn) \<and> fst (mc_close pr conn) = Inl e"
  then show "poll pr p = Inl e" using poll_close_fails by blast
next
  assume "mc_stats (env_peers env p) (MemcachedStats p) = (Inr raw, conn) \<and>
    fst (mc_close (env_peers env p) conn) = Inl e"
  then have "poll (env_peers env p) p = Inl e" using poll_close_fails by blast
  then show "collect_ports env (p # ps) acc =
      collect_ports env ps (acc\<lparr>failed := failed acc @ [p]\<rparr>)"
    by simp
qed

theorem mc_close_counterexample:
  "fst (mc_close broken_pipe_peer \<lparr>mc_port = 11211, mc_conn = Some [''stats'' @ [CHR 0x0A]]\<rparr>) = Inl OSError \<and>
   fst (mc_close refusing_peer (MemcachedStats 11211)) = Inl OSError"
  by (simp add: mc_close_def mc_write_def mc_client_def broken_pipe_peer_def refusing_peer_def
      MemcachedStats_def)

lemma findall_short_reply:
  "findall stat_regex short_reply = [[''pid'', ''4242''], [''time'', ''1700000000'']]"
  by code_simp

lemma half_closed_stats:
  "mc_stats half_closed_peer (MemcachedStats 11211) =
     (Inr [(''pid'', ''4242''), (''time'', ''1700000000'')],
      \<lparr>mc_port = 11211, mc_conn = Some [''stats'' @ [CHR 0x0A]]\<rparr>)"
  by (simp add: mc_stats_def mc_command_def mc_write_def mc_client_def mc_read_until_def
      half_closed_peer_def MemcachedStats_def ends_with_newline_def findall_short_reply
      py_dict_def as_pair_def setitem_def)

theorem mc_close_result_witness:
  "mc_stats (env_peers flaky_host 11211) (MemcachedStats 11211) =
     (Inr [(''pid'', ''4242''), (''time'', ''1700000000'')],
      \<lparr>mc_port = 11211, mc_conn = Some [''stats'' @ [CHR 0x0A]]\<rparr>) \<and>
   mc_close half_closed_peer \<lparr>mc_port = 11211, mc_conn = Some [''stats'' @ [CHR 0x0A]]\<rparr> =
     (Inl OSError, \<lparr>mc_port = 11211, mc_conn = Some [''stats'' @ [CHR 0x0A]]\<rparr>) \<and>
   poll half_closed_peer 11211 = Inl OSError \<and>
   collect_ports flaky_host [11211] \<lparr>failed = [], data = []\<rparr> =
     Inr \<lparr>failed = [11211], data = []\<rparr>"
proof -
  let ?conn = "\<lparr>mc_port = 11211, mc_conn = Some [''stats'' @ [CHR 0x0A]]\<rparr>"
  have p: "env_peers flaky_host 11211 = half_closed_peer" by (simp add: flaky_host_def)
  have c: "mc_close half_closed_peer ?conn = (Inl OSError, ?conn)"
    by (simp add: mc_close_def mc_write_def mc_client_def half_closed_peer_def)
  from mc_close_result [of half_closed_peer ?conn "read_until half_closed_peer" 11211
      "[(''pid'', ''4242''), (''time'', ''1700000000'')]" ?conn OSError flaky_host "[]"
      "\<lparr>failed = [], data = []\<rparr>"]
    p c half_closed_stats
  show ?thesis by simp
qed






lemma mc_command_fresh:
  assumes "mc_conn mc = None" "connect_error pr = None" "write_error pr [cmd @ [CHR 0x0A]] = None"
    and "\<not> ends_with_newline cmd"
  shows "mc_command pr cmd mc =
           (read_until pr [cmd @ [CHR 0x0A]] ''END'', mc\<lparr>mc_conn := Some [cmd @ [CHR 0x0A]]\<rparr>)"
  using assms by (simp add: mc_command_def mc_write_def mc_client_def mc_read_until_def)

lemma mc_command_connected:
  assumes "mc_conn mc = Some sent" "write_error pr (sent @ [cmd @ [CHR 0x0A]]) = None"
    and "\<not> ends_with_newline cmd"
  shows "mc_command pr cmd mc =
           (read_until pr (sent @ [cmd @ [CHR 0x0A]]) ''END'',
            mc\<lparr>mc_conn := Some (sent @ [cmd @ [CHR 0x0A]])\<rparr>)"
  using assms by (simp add: mc_command_def mc_write_def mc_client_def mc_read_until_def)

lemma findall_dump_text:
  "findall key_regex dump_text = [[''foo'', ''10'', ''123''], [''bar'', ''5'', ''456'']]"
  by code_simp

lemma findall_items_text: "findall slab_regex items_text = [[''1'']]"
  by code_simp

lemma sort_dump:
  "sort [(''foo'', ''10'', ''123''), (''bar'', ''5'', ''456'')] =
     [(''bar'', ''5'', ''456''), (''foo'', ''10'', ''123'')]"
  by code_simp

lemma str_int_100: "str_int 100 = ''100''"
  by (simp add: str_int_def digits_of.simps digit_char_def)

text \<open>
  C9.  A server with one slab that answers the cache dump of that slab with the text of the
  claim: \<open>key_details\<close> returns the entries of \<open>foo\<close> and \<open>bar\<close>, sorted as \<open>bar\<close>, \<open>foo\<close>,
  and in the order of the text when unsorted.
\<close>

theorem mc_key_details_dump:
  assumes "connect_error pr = None" and "\<forall>sent. write_error pr sent = None"
    and "read_until pr [''stats items'' @ [CHR 0x0A]] ''END'' = Inr items"
    and "findall slab_regex items = [[sid]]"
    and "read_until pr [''stats items'' @ [CHR 0x0A],
           ''stats cachedump '' @ sid @ '' 100'' @ [CHR 0x0A]] ''END'' = Inr dump_text"
  shows "fst (mc_key_details pr True 100 (MemcachedStats p)) =
           Inr [(''bar'', ''5'', ''456''), (''foo'', ''10'', ''123'')] \<and>
         fst (mc_key_details pr False 100 (MemcachedStats p)) =
           Inr [(''foo'', ''10'', ''123''), (''bar'', ''5'', ''456'')] \<and>
         fst (mc_keys pr True 100 (MemcachedStats p)) = Inr [''bar'', ''foo'']"
proof -
  let ?c1 = "''stats items'' @ [CHR 0x0A]"
  let ?c2 = "''stats cachedump '' @ sid @ '' 100'' @ [CHR 0x0A]"
  let ?mc1 = "(MemcachedStats p)\<lparr>mc_conn := Some [?c1]\<rparr>"
  have 1: "mc_command pr ''stats items'' (MemcachedStats p) = (Inr items, ?mc1)"
    using mc_command_fresh [of "MemcachedStats p" pr "''stats items''"] assms(1,2,3)
    by (simp add: MemcachedStats_def ends_with_newline_def)
  have s: "mc_slab_ids pr (MemcachedStats p) = (Inr [sid], ?mc1)"
    using 1 assms(4) by (simp add: mc_slab_ids_def as_single_def)
  have 2: "mc_command pr (''stats cachedump '' @ sid @ '' '' @ str_int 100) ?mc1 =
             (Inr dump_text, ?mc1\<lparr>mc_conn := Some [?c1, ?c2]\<rparr>)"
    using mc_command_connected [of ?mc1 "[?c1]" pr "''stats cachedump '' @ sid @ '' 100''"]
      assms(2,5)
    by (simp add: str_int_100 ends_with_newline_def)
  have d: "fst (cachedump_keys pr 100 [sid] ?mc1) =
             Inr [(''foo'', ''10'', ''123''), (''bar'', ''5'', ''456'')]"
    using 2 by (simp add: findall_dump_text as_triple_def)
  have k: "\<And>b. fst (mc_key_details pr b 100 (MemcachedStats p)) =
             Inr (if b then sort [(''foo'', ''10'', ''123''), (''bar'', ''5'', ''456'')]
                  else [(''foo'', ''10'', ''123''), (''bar'', ''5'', ''456'')])"
    using s d by (auto simp: mc_key_details_def split: prod.splits sum.splits)
  from k [of True] k [of False] show ?thesis
    by (auto simp: sort_dump mc_keys_def split: prod.splits sum.splits)
qed

theorem mc_key_details_dump_witness:
  "connect_error dump_peer = None \<and> write_error dump_peer [quit_line] = None \<and>
   read_until dump_peer [''stats items'' @ [CHR 0x0A]] ''END'' = Inr items_text \<and>
   findall slab_regex items_text = [[''1'']] \<and>
   fst (mc_key_details dump_peer True 100 (MemcachedStats 11211)) =
     Inr [(''bar'', ''5'', ''456''), (''foo'', ''10'', ''123'')] \<and>
   fst (mc_keys dump_peer True 100 (MemcachedStats 11211)) = Inr [''bar'', ''foo'']"
proof -
  have a: "connect_error dump_peer = None" "\<forall>sent. write_error dump_peer sent = None"
    "read_until dump_peer [''stats items'' @ [CHR 0x0A]] ''END'' = Inr items_text"
    "read_until dump_peer [''stats items'' @ [CHR 0x0A],
       ''stats cachedump '' @ ''1'' @ '' 100'' @ [CHR 0x0A]] ''END'' = Inr dump_text"
    by (simp_all add: dump_peer_def)
  from mc_key_details_dump [OF a(1,2,3) findall_items_text a(4), of 11211] a findall_items_text
  show ?thesis by simp
qed

section \<open>The claims about the collector\<close>

lemma collect_ports_all_fail:
  "\<forall>p\<in>set ps. \<exists>e. poll (env_peers env p) p = Inl e \<Longrightarrow>
     collect_ports env ps acc = Inr (acc\<lparr>failed := failed acc @ ps\<rparr>)"
  by (induction ps arbitrary: acc) auto

text \<open>
  C10.  With no port found, \<open>collect_instances\<close> returns \<open>None\<close>; with ports that all fail
  it returns the empty list (every port logged); \<open>main\<close> posts nothing in either case.
\<close>

theorem collect_instances_empty_outcomes:
  "(env_ports env = [] \<longrightarrow> collect_instances env = Inr None \<and> main env = Inr None) \<and>
   (env_ports env \<noteq> [] \<and> (\<forall>p\<in>set (env_ports env). \<exists>e. poll (env_peers env p) p = Inl e) \<longrightarrow>
      collect_instances env = Inr (Some \<lparr>failed = env_ports env, data = []\<rparr>) \<and>
      main env = Inr None)"
proof (intro conjI impI)
  assume "env_ports env = []"
  then show "collect_instances env = Inr None" by (simp add: collect_instances_def)
  then show "main env = Inr None" by (simp add: main_def)
next
  assume a: "env_ports env \<noteq> [] \<and>
    (\<forall>p\<in>set (env_ports env). \<exists>e. poll (env_peers env p) p = Inl e)"
  then have "collect_ports env (env_ports env) \<lparr>failed = [], data = []\<rparr> =
      Inr \<lparr>failed = env_ports env, data = []\<rparr>"
    using collect_ports_all_fail [of "env_ports env" env "\<lparr>failed = [], data = []\<rparr>"] by simp
  with a show c: "collect_instances env = Inr (Some \<lparr>failed = env_ports env, data = []\<rparr>)"
    by (simp add: collect_instances_def)
  then show "main env = Inr None" by (simp add: main_def)
qed

lemma poll_refusing: "poll refusing_peer p = Inl OSError"
  by (simp add: poll_def mc_stats_def mc_command_def mc_write_def mc_client_def refusing_peer_def
      MemcachedStats_def)

theorem collect_instances_empty_outcomes_witness:
  "env_ports idle_host = [] \<and> collect_instances idle_host = Inr None \<and> main idle_host = Inr None \<and>
   env_ports dead_host = [11211, 11212] \<and>
   poll (env_peers dead_host 11211) 11211 = Inl OSError \<and>
   poll (env_peers dead_host 11212) 11212 = Inl OSError \<and>
   collect_instances dead_host = Inr (Some \<lparr>failed = [11211, 11212], data = []\<rparr>) \<and>
   main dead_host = Inr None"
proof -
  have i: "env_ports idle_host = []" by (simp add: idle_host_def)
  have d: "env_ports dead_host = [11211, 11212]" "env_peers dead_host = (\<lambda>p. refusing_peer)"
    by (simp_all add: dead_host_def)
  from collect_instances_empty_outcomes [of idle_host]
    collect_instances_empty_outcomes [of dead_host] i d poll_refusing
  show ?thesis by simp
qed

section \<open>The claims about the loop over the ports\<close>







lemma findall_healthy_reply:
  "findall stat_regex healthy_reply =
     [[''pid'', ''4242''], [''uptime'', ''10''], [''time'', ''1700000000''], [''cmd_get'', ''3'']]"
  by code_simp

lemma healthy_stats:
  "mc_stats healthy_peer (MemcachedStats 11212) =
     (Inr [(''pid'', ''4242''), (''uptime'', ''10''), (''time'', ''1700000000''), (''cmd_get'', ''3'')],
      \<lparr>mc_port = 11212, mc_conn = Some [''stats'' @ [CHR 0x0A]]\<rparr>)"
  by (simp add: mc_stats_def mc_command_def mc_write_def mc_client_def mc_read_until_def
      healthy_peer_def MemcachedStats_def ends_with_newline_def findall_healthy_reply
      py_dict_def as_pair_def setitem_def)

lemma wrap_healthy:
  "wrap_stats [(''pid'', ''4242''), (''uptime'', ''10''), (''time'', ''1700000000''), (''cmd_get'', ''3'')] =
     [(''uptime'', ''10''), (''cmd_get'', ''3'')]"
  by (simp add: wrap_stats_def wrap_stats_try_def wrap_stats_steps_def delitem_def usage_step_def
      float_item_def getitem_def)

lemma poll_healthy:
  "poll healthy_peer 11212 = Inr [(''uptime'', ''10''), (''cmd_get'', ''3'')]"
proof -
  have "mc_close healthy_peer \<lparr>mc_port = 11212, mc_conn = Some [''stats'' @ [CHR 0x0A]]\<rparr> =
      (Inr (), \<lparr>mc_port = 11212, mc_conn = Some [''stats'' @ [CHR 0x0A], ''quit'' @ [CHR 0x0A]]\<rparr>)"
    by (simp add: mc_close_def mc_write_def mc_client_def healthy_peer_def ends_with_newline_def)
  then show ?thesis
    by (simp add: poll_def healthy_stats wrap_healthy)
qed


lemma py_float_10: "py_float ''10'' = Inr (PyFin False (10 * 2 ^ 49) (- 49))"
  by (simp add: float_eval)

lemma str_int_11212: "str_int 11212 = ''11212''"
  by (simp add: str_int_def digits_of.simps digit_char_def)

lemma healthy_points:
  "points_of mixed_host 11212 [(''uptime'', ''10''), (''cmd_get'', ''3'')]
     [(''uptime'', ''10''), (''cmd_get'', ''3'')] = Inr [uptime_point, cmd_get_point]"
proof -
  have a: "py_float ''10'' = Inr (PyFin False 5629499534213120 (- 49))" using py_float_10 by simp
  have b: "py_float ''3'' = Inr (PyFin False 6755399441055744 (- 51))" using py_float_3 by simp
  show ?thesis
    by (simp add: float_item_def getitem_def a b make_point_def gauges_def str_int_11212
        mixed_host_def uptime_point_def cmd_get_point_def)
qed

lemma mixed_peers:
  "env_peers mixed_host 11211 = eof_peer" "env_peers mixed_host 11212 = healthy_peer"
  "env_peers mixed_host 11213 = refusing_peer" "env_ports mixed_host = [11211, 11212, 11213]"
  by (simp_all add: mixed_host_def)










text \<open>
  C7.  For a port whose block succeeds, the inner loop yields the points of the pairs of the
  normalized dictionary, one for each pair and in the order of the pairs (the keys of a
  dictionary are distinct).  A point's value is \<open>float\<close> of the pair's value; its name is
  \<open>mc.<key>\<close> and its type \<open>GAUGE\<close> when the key is in \<open>gauges\<close>, else
  \<open>mc.<key>_cps\<close> and \<open>COUNTER\<close>; its endpoint is the host name, its timestamp the
  collection time, its step 60 and its tags \<open>port=<n>\<close>.  These points are what the port
  appends to the result.
\<close>

theorem points_of_normalized_stats:
  assumes "poll (env_peers env p) p = Inr st"
  shows "\<exists>pts. points_of env p st st = Inr pts \<and>
           collect_ports env (p # ps) acc = collect_ports env ps (acc\<lparr>data := data acc @ pts\<rparr>) \<and>
           distinct (map fst st) \<and>
           map metric pts = map (\<lambda>(k, v). ''mc.'' @ k @ (if k \<in> set gauges then [] else ''_cps'')) st \<and>
           map counterType pts = map (\<lambda>(k, v). if k \<in> set gauges then ''GAUGE'' else ''COUNTER'') st \<and>
           map (\<lambda>pt. Inr (metric_value pt)) pts = map (\<lambda>(k, v). py_float v) st \<and>
           (\<forall>pt \<in> set pts. endpoint pt = env_hostname env \<and> timestamp pt = env_now env \<and>
              step pt = 60 \<and> tags pt = ''port='' @ str_int (int p))"
proof -
  have fd: "float_dict st" using assms by (rule float_dict_poll)
  from points_of_float_dict [OF fd subset_refl, of env p]
  obtain pts where pts: "points_of env p st st = Inr pts"
    and rest: "map (\<lambda>pt. Inr (metric_value pt)) pts = map (\<lambda>(k, v). py_float v) st"
      "map metric pts = map (\<lambda>(k, v). ''mc.'' @ k @ (if k \<in> set gauges then [] else ''_cps'')) st"
      "map counterType pts = map (\<lambda>(k, v). if k \<in> set gauges then ''GAUGE'' else ''COUNTER'') st"
      "\<forall>pt \<in> set pts. endpoint pt = env_hostname env \<and> timestamp pt = env_now env \<and>
              step pt = 60 \<and> tags pt = ''port='' @ str_int (int p)"
    by blast
  have "collect_ports env (p # ps) acc = collect_ports env ps (acc\<lparr>data := data acc @ pts\<rparr>)"
    using assms pts by simp
  moreover have "distinct (map fst st)" using fd by (simp add: float_dict_def)
  ultimately show ?thesis using pts rest by blast
qed

theorem points_of_normalized_stats_witness:
  "poll (env_peers mixed_host 11212) 11212 = Inr [(''uptime'', ''10''), (''cmd_get'', ''3'')] \<and>
   points_of mixed_host 11212 [(''uptime'', ''10''), (''cmd_get'', ''3'')]
     [(''uptime'', ''10''), (''cmd_get'', ''3'')] = Inr [uptime_point, cmd_get_point] \<and>
   ''uptime'' \<in> set gauges \<and> ''cmd_get'' \<notin> set gauges \<and>
   map metric [uptime_point, cmd_get_point] = [''mc.uptime'', ''mc.cmd_get_cps''] \<and>
   map counterType [uptime_point, cmd_get_point] = [''GAUGE'', ''COUNTER''] \<and>
   map (\<lambda>pt. Inr (metric_value pt)) [uptime_point, cmd_get_point] = [py_float ''10'', py_float ''3''] \<and>
   map endpoint [uptime_point, cmd_get_point] = [env_hostname mixed_host, env_hostname mixed_host] \<and>
   map timestamp [uptime_point, cmd_get_point] = [env_now mixed_host, env_now mixed_host] \<and>
   map step [uptime_point, cmd_get_point] = [60, 60] \<and>
   map tags [uptime_point, cmd_get_point] = [''port=11212'', ''port=11212''] \<and>
   collect_ports mixed_host [11212] \<lparr>failed = [], data = []\<rparr> =
     Inr \<lparr>failed = [], data = [uptime_point, cmd_get_point]\<rparr>"
proof -
  have p: "poll (env_peers mixed_host 11212) 11212 = Inr [(''uptime'', ''10''), (''cmd_get'', ''3'')]"
    by (simp add: mixed_peers poll_healthy)
  from points_of_normalized_stats [OF p, of "[]" "\<lparr>failed = [], data = []\<rparr>"]
  obtain pts where pts: "points_of mixed_host 11212 [(''uptime'', ''10''), (''cmd_get'', ''3'')]
      [(''uptime'', ''10''), (''cmd_get'', ''3'')] = Inr pts"
    and c: "collect_ports mixed_host [11212] \<lparr>failed = [], data = []\<rparr> =
      collect_ports mixed_host [] (\<lparr>failed = [], data = []\<rparr>\<lparr>data := data \<lparr>failed = [], data = []\<rparr> @ pts\<rparr>)"
    by blast
  from pts healthy_points have e: "pts = [uptime_point, cmd_get_point]" by simp
  have a: "py_float ''10'' = Inr (PyFin False 5629499534213120 (- 49))" using py_float_10 by simp
  have b: "py_float ''3'' = Inr (PyFin False 6755399441055744 (- 51))" using py_float_3 by simp
  have f: "map metric [uptime_point, cmd_get_point] = [''mc.uptime'', ''mc.cmd_get_cps'']"
    "map counterType [uptime_point, cmd_get_point] = [''GAUGE'', ''COUNTER'']"
    "map (\<lambda>pt. Inr (metric_value pt)) [uptime_point, cmd_get_point] = [py_float ''10'', py_float ''3'']"
    "map endpoint [uptime_point, cmd_get_point] = [env_hostname mixed_host, env_hostname mixed_host]"
    "map timestamp [uptime_point, cmd_get_point] = [env_now mixed_host, env_now mixed_host]"
    "map step [uptime_point, cmd_get_point] = [60, 60]"
    "map tags [uptime_point, cmd_get_point] = [''port=11212'', ''port=11212'']"
    "''uptime'' \<in> set gauges" "''cmd_get'' \<notin> set gauges"
    by (simp_all add: uptime_point_def cmd_get_point_def a b mixed_host_def gauges_def)
  from c e have "collect_ports mixed_host [11212] \<lparr>failed = [], data = []\<rparr> =
     Inr \<lparr>failed = [], data = [uptime_point, cmd_get_point]\<rparr>" by simp
  with p healthy_points f show ?thesis by simp
qed

end
